theory Spec2Isabelle
  imports Main "HOL-Library.Word"
begin

unbundle bit_operations_syntax

section \<open>The per-connection HTTP server core of thevoid (src/thevoid/connection.cpp)\<close>

text \<open>
  The connection object is embedded as a record holding the members that
  \<^verbatim>\<open>connection.cpp\<close> reads and writes. Every member function becomes a function from
  the connection to the updated connection. What the connection does to the outside
  (socket operations, log lines, calls into the handler, completion callbacks) is
  appended, in program order, to the \<open>trace\<close> field.

  The collaborators whose code is not part of the file (request parser, handler
  factory, handler, reply formatter) are passed in as a record of functions, the
  \<open>world\<close>. A handler callback either returns or throws; a throw is the value
  \<open>Inl ex\<close>. A member function whose execution is left by an exception nobody
  catches returns \<open>Inl ex\<close> as well.

  The handler-facing entry points \<^verbatim>\<open>close\<close> and \<^verbatim>\<open>want_more\<close> only hand
  \<^verbatim>\<open>close_impl\<close> and \<^verbatim>\<open>want_more_impl\<close> to the io_service ("Invoke close_impl some
  time later"), so \<open>close_impl\<close> and \<open>want_more_impl\<close> are events of their own here,
  as are \<open>handle_read\<close> and \<open>write_finished\<close>. Debug logging and the wall-clock
  fields of the access log are left out.
\<close>

subsection \<open>Data\<close>

type_synonym bytes = string

text \<open>\<^verbatim>\<open>boost::system::error_code\<close>: zero is success, \<^verbatim>\<open>if (err)\<close> tests for non-zero.\<close>

type_synonym error_code = nat

datatype exn = StdException string | UnknownException

datatype tribool = TriTrue | TriFalse | Indeterminate

record http_request =
  req_method :: string
  req_url :: string
  req_content_length :: "64 word option"
  req_is_keep_alive :: bool

definition empty_request :: http_request where
  "empty_request =
     \<lparr>req_method = [], req_url = [], req_content_length = None, req_is_keep_alive = False\<rparr>"

record http_response =
  rep_code :: nat
  rep_keep_alive :: bool

text \<open>
  The completion callback of a queued item (a \<^verbatim>\<open>std::function\<close>): empty, the
  connection's own \<^verbatim>\<open>close_impl\<close> (bound by \<^verbatim>\<open>send_error\<close>), or a callback
  supplied by the handler, identified by a number.
\<close>

datatype callback = NoCallback | CloseImpl | UserCallback nat

record buffer_info =
  buffer :: "bytes list"
  response :: "http_response option"
  handler :: callback

record access_entry =
  log_method :: string
  log_url :: string
  log_local :: string
  log_remote :: string
  log_status :: int
  log_received :: "64 word"
  log_sent :: "64 word"

datatype action =
    AccessLog access_entry
  | ErrorLog string
  | ExtraWrittenBytes nat
  | Shutdown
  | AsyncReadSome
  | AsyncWriteSome "bytes list"
  | Initialize
  | OnHeaders http_request
  | OnData bytes
  | OnClose error_code
  | Completion nat error_code

record ('p, 'h) world =
  parse :: "'p \<Rightarrow> http_request \<Rightarrow> bytes \<Rightarrow> tribool \<times> nat \<times> 'p \<times> http_request"
  parser_reset :: "'p \<Rightarrow> 'p"
  factory :: "http_request \<Rightarrow> 'h option"
  on_headers :: "'h \<Rightarrow> http_request \<Rightarrow> exn + 'h"
  on_data :: "'h \<Rightarrow> bytes \<Rightarrow> exn + (64 word \<times> 'h)"
  on_close :: "'h \<Rightarrow> error_code \<Rightarrow> exn + 'h"
  format_head :: "http_response \<Rightarrow> bytes"

text \<open>
  Auxiliary bookkeeping, kept beside the members of the class so that the properties
  about whole requests can be stated. A \<open>receipt\<close> is written where bytes of the
  current request are accounted for: \<open>Parsed n\<close> when the parser reports that it consumed
  \<open>n\<close> bytes, \<open>Acknowledged n\<close> when \<^verbatim>\<open>on_data\<close> returns \<open>n\<close>, \<open>Unattended n\<close> when
  \<open>n\<close> body bytes pass while no handler is attached.
\<close>

datatype receipt = Parsed nat | Acknowledged "64 word" | Unattended "64 word"

text \<open>
  Pointers into the read buffer are offsets from \<^verbatim>\<open>m_buffer.data()\<close>; \<open>None\<close> is the
  null pointer. The three fields after \<open>m_server\<close> are the members of
  \<^verbatim>\<open>m_server->m_data\<close> that the connection uses.

  The four fields after \<open>trace\<close> are not members of the class and no branch of the
  model reads them; they are the auxiliary bookkeeping: the receipts of the current
  request, for every access log line printed so far the receipts the request had at
  the moment the line was printed, the length the trace had when the current request
  began, and for every request that \<^verbatim>\<open>process_next\<close> has moved on from the number of
  access log lines in its part of the trace.
\<close>

record ('p, 'h) connection =
  m_buffer :: bytes
  m_content_length :: "64 word"
  m_state :: "32 word"
  m_sending :: bool
  m_keep_alive :: bool
  m_at_read :: bool
  m_unprocessed_begin :: "nat option"
  m_unprocessed_end :: "nat option"
  m_access_method :: string
  m_access_url :: string
  m_access_local :: string
  m_access_remote :: string
  m_access_status :: int
  m_access_received :: "64 word"
  m_access_sent :: "64 word"
  m_request_parser :: 'p
  m_request :: http_request
  m_handler :: "'h option"
  m_outgoing :: "buffer_info list"
  m_server :: bool
  safe_mode :: bool
  connections_counter :: int
  active_connections_counter :: int
  trace :: "action list"
  receipts :: "receipt list"
  reported :: "receipt list list"
  request_begin :: nat
  finished_lines :: "nat list"

subsection \<open>Constants declared outside connection.cpp\<close>

text \<open>
  Modelled from the spec: the \<^verbatim>\<open>state\<close> enumeration lives in connection_p.hpp, which is
  not among the sources. The spec gives four independent flags combined into a bitmask
  and \<^verbatim>\<open>PROCESSING_REQUEST\<close> as the state in which neither \<^verbatim>\<open>READ_HEADERS\<close> nor
  \<^verbatim>\<open>READ_DATA\<close> holds, so it is the empty mask and the others are distinct bits.
\<close>

definition processing_request :: "32 word" where "processing_request = 0"
definition read_headers :: "32 word" where "read_headers = 1"
definition read_data :: "32 word" where "read_data = 2"
definition request_processed :: "32 word" where "request_processed = 4"
definition waiting_for_first_data :: "32 word" where "waiting_for_first_data = 8"

text \<open>
  Modelled from the spec: \<^verbatim>\<open>swarm::http_response::status_type\<close> and the stock reply
  module are not among the sources. A stock reply carries the status it is asked for,
  and \<^verbatim>\<open>to_buffers\<close> yields the formatted status line and headers (which start with
  \<^verbatim>\<open>HTTP/1.1\<close>) followed by the body buffer.
\<close>

definition bad_request :: nat where "bad_request = 400"
definition not_found :: nat where "not_found = 404"

definition stock_reply :: "nat \<Rightarrow> http_response" where
  "stock_reply type = \<lparr>rep_code = type, rep_keep_alive = False\<rparr>"

definition set_keep_alive :: "http_response \<Rightarrow> http_response" where
  "set_keep_alive rep = rep\<lparr>rep_keep_alive := True\<rparr>"

definition to_buffers :: "('p, 'h) world \<Rightarrow> http_response \<Rightarrow> bytes \<Rightarrow> bytes list" where
  "to_buffers w rep content = [''HTTP/1.1 '' @ format_head w rep, content]"

subsection \<open>The constructor and the small members\<close>

definition new_connection :: "nat \<Rightarrow> 'p \<Rightarrow> bool \<Rightarrow> ('p, 'h) connection" where
  "new_connection buffer_size parser safe =
     \<lparr>m_buffer = replicate buffer_size (CHR 0x00),
      m_content_length = 0,
      m_state = read_headers OR waiting_for_first_data,
      m_sending = False,
      m_keep_alive = False,
      m_at_read = False,
      m_unprocessed_begin = Some 0,
      m_unprocessed_end = Some 0,
      m_access_method = [],
      m_access_url = [],
      m_access_local = [],
      m_access_remote = [],
      m_access_status = 0,
      m_access_received = 0,
      m_access_sent = 0,
      m_request_parser = parser,
      m_request = empty_request,
      m_handler = None,
      m_outgoing = [],
      m_server = False,
      safe_mode = safe,
      connections_counter = 0,
      active_connections_counter = 0,
      trace = [],
      receipts = [],
      reported = [],
      request_begin = 0,
      finished_lines = []\<rparr>"

text \<open>
  \<open>emit\<close> appends to the trace. When the action is an access log line it also notes,
  in the auxiliary \<open>reported\<close>, the receipts the request has at this moment.
\<close>

definition emit :: "action \<Rightarrow> ('p, 'h) connection \<Rightarrow> ('p, 'h) connection" where
  "emit a c =
     (case a of
        AccessLog entry \<Rightarrow>
          c\<lparr>trace := trace c @ [a],
            reported := reported c @ [receipts c]\<rparr>
      | _ \<Rightarrow> c\<lparr>trace := trace c @ [a]\<rparr>)"

text \<open>
  The access log lines of the current request: those in the part of the trace written
  since the request began.
\<close>

definition is_line :: "action \<Rightarrow> bool" where
  "is_line a = (case a of AccessLog entry \<Rightarrow> True | _ \<Rightarrow> False)"

definition lines :: "('p, 'h) connection \<Rightarrow> nat" where
  "lines c = length (filter is_line (drop (request_begin c) (trace c)))"

text \<open>The fields of the log call at lines 399 to 407, the elapsed time apart.\<close>

definition access_entry :: "('p, 'h) connection \<Rightarrow> access_entry" where
  "access_entry c =
     \<lparr>log_method = (if m_access_method c = [] then ''-'' else m_access_method c),
      log_url = (if m_access_url c = [] then ''-'' else m_access_url c),
      log_local = m_access_local c,
      log_remote = m_access_remote c,
      log_status = m_access_status c,
      log_received = m_access_received c,
      log_sent = m_access_sent c\<rparr>"

definition print_access_log :: "('p, 'h) connection \<Rightarrow> ('p, 'h) connection" where
  "print_access_log c =
     (if m_state c AND waiting_for_first_data \<noteq> 0 then c
      else emit (AccessLog (access_entry c)) c)"

definition async_read :: "('p, 'h) connection \<Rightarrow> ('p, 'h) connection" where
  "async_read c =
     (if m_at_read c then c
      else emit AsyncReadSome
        (c\<lparr>m_at_read := True, m_unprocessed_begin := None, m_unprocessed_end := None\<rparr>))"

definition start :: "string \<Rightarrow> string \<Rightarrow> ('p, 'h) connection \<Rightarrow> ('p, 'h) connection" where
  "start local remote c =
     async_read (c\<lparr>m_access_local := local, m_access_remote := remote, m_server := True,
                   connections_counter := connections_counter c + 1\<rparr>)"

subsection \<open>The outbound queue\<close>

definition buffers_count :: nat where "buffers_count = 32"

text \<open>
  The two nested loops of the \<^verbatim>\<open>buffers_array\<close> constructor; the list built so far is
  \<^verbatim>\<open>m_data[0..m_size)\<close>, its length is \<^verbatim>\<open>m_size\<close>.
\<close>

fun buffers_array_inner :: "bytes list \<Rightarrow> bytes list \<Rightarrow> bytes list" where
  "buffers_array_inner [] m_data = m_data"
| "buffers_array_inner (jt # rest) m_data =
     (if length m_data < buffers_count then buffers_array_inner rest (m_data @ [jt])
      else m_data)"

fun buffers_array_outer :: "buffer_info list \<Rightarrow> bytes list \<Rightarrow> bytes list" where
  "buffers_array_outer [] m_data = m_data"
| "buffers_array_outer (it # rest) m_data =
     (if length m_data < buffers_count
      then buffers_array_outer rest (buffers_array_inner (buffer it) m_data)
      else m_data)"

definition buffers_array :: "buffer_info list \<Rightarrow> bytes list" where
  "buffers_array queue = buffers_array_outer queue []"

definition send_nolock :: "('p, 'h) connection \<Rightarrow> ('p, 'h) connection" where
  "send_nolock c = emit (AsyncWriteSome (buffers_array (m_outgoing c))) c"

definition send_impl :: "('p, 'h) connection \<Rightarrow> buffer_info \<Rightarrow> ('p, 'h) connection" where
  "send_impl c info =
     (let c1 = c\<lparr>m_outgoing := m_outgoing c @ [info]\<rparr>
      in if \<not> m_sending c1 then send_nolock (c1\<lparr>m_sending := True\<rparr>) else c1)"

definition send_headers ::
  "('p, 'h) world \<Rightarrow> ('p, 'h) connection \<Rightarrow> http_response \<Rightarrow> bytes \<Rightarrow> callback
     \<Rightarrow> ('p, 'h) connection" where
  "send_headers w c rep content cb =
     (let c1 = c\<lparr>m_access_status := int (rep_code rep)\<rparr>;
          rep1 = (if m_keep_alive c1 then set_keep_alive rep else rep)
      in send_impl c1 \<lparr>buffer = to_buffers w rep1 content, response = Some rep1, handler = cb\<rparr>)"

definition send_data :: "('p, 'h) connection \<Rightarrow> bytes \<Rightarrow> callback \<Rightarrow> ('p, 'h) connection" where
  "send_data c buf cb = send_impl c \<lparr>buffer = [buf], response = None, handler = cb\<rparr>"

definition send_error :: "('p, 'h) world \<Rightarrow> ('p, 'h) connection \<Rightarrow> nat \<Rightarrow> ('p, 'h) connection" where
  "send_error w c type = send_headers w c (stock_reply type) [] CloseImpl"

subsection \<open>The SAFE_CALL macro\<close>

text \<open>
  \<open>SAFE_CALL\<close> takes the outcome of evaluating the guarded expression. \<open>Value r\<close>: the
  expression returned \<open>r\<close>. \<open>Caught c\<close>: it threw under safe mode; \<open>c\<close> is the
  connection after the catch block, the error handler included. \<open>Uncaught ex\<close>: it
  threw with safe mode off. After \<open>Caught\<close>, a call site that passed
  \<open>SAFE_SEND_ERROR\<close> returns from its function (the macro ends in \<^verbatim>\<open>return\<close>), one
  that passed \<open>SAFE_SEND_NONE\<close> goes on.
\<close>

datatype ('r, 'c) safe_call = Value 'r | Caught 'c | Uncaught exn

definition SAFE_SEND_NONE :: "('p, 'h) connection \<Rightarrow> ('p, 'h) connection" where
  "SAFE_SEND_NONE c = c"

definition SAFE_SEND_ERROR :: "('p, 'h) connection \<Rightarrow> ('p, 'h) connection" where
  "SAFE_SEND_ERROR c =
     (emit Shutdown c)\<lparr>active_connections_counter := active_connections_counter c - 1,
                       m_handler := None\<rparr>"

definition uncaught_message :: "string \<Rightarrow> exn \<Rightarrow> string" where
  "uncaught_message err_prefix ex =
     (case ex of
        StdException what \<Rightarrow> err_prefix @ '': uncaught exception: '' @ what
      | UnknownException \<Rightarrow> err_prefix @ '': uncaught exception: unknown'')"

text \<open>The three statements both catch clauses run before the error handler.\<close>

definition caught :: "('p, 'h) connection \<Rightarrow> string \<Rightarrow> exn \<Rightarrow> ('p, 'h) connection" where
  "caught c err_prefix ex =
     print_access_log
       ((emit (ErrorLog (uncaught_message err_prefix ex)) c)\<lparr>m_access_status := 598\<rparr>)"

definition SAFE_CALL ::
  "('p, 'h) connection \<Rightarrow> exn + 'r \<Rightarrow> string
     \<Rightarrow> (('p, 'h) connection \<Rightarrow> ('p, 'h) connection) \<Rightarrow> ('r, ('p, 'h) connection) safe_call" where
  "SAFE_CALL c expr err_prefix error_handler =
     (if safe_mode c then
        (case expr of
           Inr r \<Rightarrow> Value r
         | Inl ex \<Rightarrow> Caught (error_handler (caught c err_prefix ex)))
      else
        (case expr of Inr r \<Rightarrow> Value r | Inl ex \<Rightarrow> Uncaught ex))"

subsection \<open>The blocks of process_data\<close>

text \<open>
  \<^verbatim>\<open>process_data\<close> is long; its straight-line blocks are defined first, each under
  the lines of connection.cpp it stands for, and the function itself keeps the
  branching and the recursive calls.
\<close>

text \<open>The bytes of the read buffer between two offsets.\<close>

definition range_bytes :: "bytes \<Rightarrow> nat \<Rightarrow> nat \<Rightarrow> bytes" where
  "range_bytes buf begin end = take (end - begin) (drop begin buf)"

text \<open>
  Lines 440 to 452: clear \<^verbatim>\<open>waiting_for_first_data\<close>, run the parser on
  \<^verbatim>\<open>[begin, end)\<close>, add \<^verbatim>\<open>new_begin - begin\<close> to the bytes received. The result is
  the parser's verdict, \<^verbatim>\<open>new_begin\<close> and the connection.
\<close>

definition parse_headers ::
  "('p, 'h) world \<Rightarrow> ('p, 'h) connection \<Rightarrow> nat \<Rightarrow> nat
     \<Rightarrow> tribool \<times> nat \<times> ('p, 'h) connection" where
  "parse_headers w c begin end =
     (let c1 = (if m_state c AND waiting_for_first_data \<noteq> 0
                then c\<lparr>m_state := m_state c AND NOT waiting_for_first_data\<rparr> else c);
          parsed = parse w (m_request_parser c1) (m_request c1)
                     (range_bytes (m_buffer c1) begin end);
          new_begin = begin + fst (snd parsed)
      in (fst parsed, new_begin,
          c1\<lparr>m_request_parser := fst (snd (snd parsed)),
              m_request := snd (snd (snd parsed)),
              m_access_received := m_access_received c1 + of_nat (new_begin - begin),
              receipts := receipts c1 @ [Parsed (fst (snd parsed))]\<rparr>))"

text \<open>Lines 457 to 459: what a malformed request does before \<^verbatim>\<open>send_error\<close>.\<close>

definition reject_request :: "('p, 'h) connection \<Rightarrow> ('p, 'h) connection" where
  "reject_request c =
     c\<lparr>m_keep_alive := False, m_unprocessed_begin := None, m_unprocessed_end := None,
       m_state := processing_request\<rparr>"

text \<open>Lines 465 to 473, the factory lookup of line 467 apart.\<close>

definition accept_request :: "('p, 'h) connection \<Rightarrow> ('p, 'h) connection" where
  "accept_request c =
     c\<lparr>m_access_method := req_method (m_request c),
       m_access_url := req_url (m_request c),
       m_content_length :=
         (case req_content_length (m_request c) of Some len \<Rightarrow> len | None \<Rightarrow> 0),
       m_keep_alive := req_is_keep_alive (m_request c)\<rparr>"

text \<open>
  Lines 467 and 475 to 482. The factory lookup and \<^verbatim>\<open>factory->create()\<close> are one
  function of the world: \<open>factory w req = Some h\<close> when a factory is found and
  creates the handler \<open>h\<close>. \<open>attach_handler\<close> is lines 476 to 478 up to the call of
  \<^verbatim>\<open>on_headers\<close>.
\<close>

definition attach_handler :: "('p, 'h) connection \<Rightarrow> 'h \<Rightarrow> ('p, 'h) connection" where
  "attach_handler c h =
     emit (OnHeaders (m_request c)) (emit Initialize
       (c\<lparr>active_connections_counter := active_connections_counter c + 1,
          m_handler := Some h\<rparr>))"

definition dispatch_request ::
  "('p, 'h) world \<Rightarrow> ('p, 'h) connection
     \<Rightarrow> (('p, 'h) connection, ('p, 'h) connection) safe_call" where
  "dispatch_request w c =
     (case factory w (m_request c) of
        Some h \<Rightarrow>
          (let c1 = attach_handler c h
           in case SAFE_CALL c1 (on_headers w h (m_request c))
                     ''connection::process_data -> on_headers'' SAFE_SEND_ERROR of
                Value h' \<Rightarrow> Value (c1\<lparr>m_handler := Some h'\<rparr>)
              | Caught c' \<Rightarrow> Caught c'
              | Uncaught ex \<Rightarrow> Uncaught ex)
      | None \<Rightarrow> Value (send_error w c not_found))"

text \<open>Lines 484 and 485.\<close>

definition enter_read_data :: "('p, 'h) connection \<Rightarrow> ('p, 'h) connection" where
  "enter_read_data c = c\<lparr>m_state := (m_state c AND NOT read_headers) OR read_data\<rparr>"

text \<open>
  Line 495, \<^verbatim>\<open>std::min<size_t>(m_content_length, end - begin)\<close>, on 64-bit words. The
  pointer difference is converted to \<^verbatim>\<open>size_t\<close>: when \<open>begin\<close> is past \<open>end\<close> it wraps
  around, as the subtraction of words does.
\<close>

definition data_from_body :: "('p, 'h) connection \<Rightarrow> nat \<Rightarrow> nat \<Rightarrow> 64 word" where
  "data_from_body c begin end = min (m_content_length c) (of_nat end - of_nat begin)"

text \<open>
  Lines 496 to 499: \<^verbatim>\<open>processed_size\<close> starts as \<^verbatim>\<open>data_from_body\<close> and is replaced
  by what \<^verbatim>\<open>on_data\<close> returns when there are body bytes and a handler. The receipt
  for the bytes is written here.
\<close>

definition deliver_body ::
  "('p, 'h) world \<Rightarrow> ('p, 'h) connection \<Rightarrow> nat \<Rightarrow> nat
     \<Rightarrow> (64 word \<times> ('p, 'h) connection, ('p, 'h) connection) safe_call" where
  "deliver_body w c begin end =
     (case m_handler c of
        Some h \<Rightarrow>
          if data_from_body c begin end \<noteq> 0 then
            (let offered = range_bytes (m_buffer c) begin
                             (begin + unat (data_from_body c begin end));
                 c1 = emit (OnData offered) c
             in case SAFE_CALL c1 (on_data w h offered)
                       ''connection::process_data -> on_data'' SAFE_SEND_ERROR of
                  Value r \<Rightarrow>
                    Value (fst r, c1\<lparr>m_handler := Some (snd r),
                                     receipts := receipts c1 @ [Acknowledged (fst r)]\<rparr>)
                | Caught c' \<Rightarrow> Caught c'
                | Uncaught ex \<Rightarrow> Uncaught ex)
          else Value (data_from_body c begin end, c)
      | None \<Rightarrow>
          Value (data_from_body c begin end,
                 c\<lparr>receipts := receipts c @ [Unattended (data_from_body c begin end)]\<rparr>))"

text \<open>Lines 501 and 502.\<close>

definition count_processed :: "('p, 'h) connection \<Rightarrow> 64 word \<Rightarrow> ('p, 'h) connection" where
  "count_processed c processed_size =
     c\<lparr>m_content_length := m_content_length c - processed_size,
       m_access_received := m_access_received c + processed_size\<rparr>"

text \<open>Lines 509 and 510, and again 517 and 518.\<close>

definition park :: "('p, 'h) connection \<Rightarrow> nat \<Rightarrow> nat \<Rightarrow> ('p, 'h) connection" where
  "park c begin end = c\<lparr>m_unprocessed_begin := Some begin, m_unprocessed_end := Some end\<rparr>"

text \<open>
  \<^verbatim>\<open>SAFE_CALL(m_handler->on_close(err), prefix, error_handler)\<close> for the handler \<open>h\<close>
  held in \<^verbatim>\<open>m_handler\<close>.
\<close>

definition call_on_close ::
  "('p, 'h) world \<Rightarrow> ('p, 'h) connection \<Rightarrow> 'h \<Rightarrow> error_code \<Rightarrow> string
     \<Rightarrow> (('p, 'h) connection \<Rightarrow> ('p, 'h) connection)
     \<Rightarrow> (('p, 'h) connection, ('p, 'h) connection) safe_call" where
  "call_on_close w c h err err_prefix error_handler =
     (let c1 = emit (OnClose err) c
      in case SAFE_CALL c1 (on_close w h err) err_prefix error_handler of
           Value h' \<Rightarrow> Value (c1\<lparr>m_handler := Some h'\<rparr>)
         | Caught c' \<Rightarrow> Caught c'
         | Uncaught ex \<Rightarrow> Uncaught ex)"

text \<open>Lines 522 and 523.\<close>

definition body_complete ::
  "('p, 'h) world \<Rightarrow> ('p, 'h) connection
     \<Rightarrow> (('p, 'h) connection, ('p, 'h) connection) safe_call" where
  "body_complete w c =
     (case m_handler c of
        Some h \<Rightarrow>
          call_on_close w c h 0 ''connection::process_data -> on_close'' SAFE_SEND_ERROR
      | None \<Rightarrow> Value c)"

text \<open>
  Lines 364 to 377 of \<^verbatim>\<open>process_next\<close>. The auxiliary fields start over with the
  request: the line just printed is the last one of the request that ends here.
\<close>

definition reset_request :: "('p, 'h) world \<Rightarrow> ('p, 'h) connection \<Rightarrow> ('p, 'h) connection" where
  "reset_request w c =
     (print_access_log c)
       \<lparr>m_state := read_headers OR waiting_for_first_data,
        m_access_method := [],
        m_access_url := [],
        m_access_status := 0,
        m_access_received := 0,
        m_access_sent := 0,
        m_request_parser := parser_reset w (m_request_parser c),
        m_request := empty_request,
        receipts := [],
        request_begin := length (trace (print_access_log c)),
        finished_lines := finished_lines c @ [lines (print_access_log c)]\<rparr>"

subsection \<open>Facts needed to define the recursive members\<close>

text \<open>
  \<open>process_data\<close> calls itself once the headers are complete and calls
  \<open>process_next\<close> when a drained request ends; \<open>process_next\<close> calls \<open>process_data\<close>
  on the bytes still parked in the buffer. The rank below falls along every such call:
  the header phase ranks above the body phase, \<open>process_next\<close> sits between a state
  with \<^verbatim>\<open>request_processed\<close> and the fresh state it installs.
\<close>

definition state_rank :: "32 word \<Rightarrow> nat" where
  "state_rank s =
     (if s AND request_processed \<noteq> 0 then 3 else 0) +
     (if s AND read_headers \<noteq> 0 then 2 else if s AND read_data \<noteq> 0 then 1 else 0)"

lemmas flag_defs =
  processing_request_def read_headers_def read_data_def request_processed_def
  waiting_for_first_data_def

lemma flag_bits:
  "(s AND (1::32 word) \<noteq> 0) = bit s 0"
  "(s AND (2::32 word) \<noteq> 0) = bit s 1"
  "(s AND (4::32 word) \<noteq> 0) = bit s 2"
  "(s AND (8::32 word) \<noteq> 0) = bit s 3"
  using and_exp_eq_0_iff_not_bit [of s 0] and_exp_eq_0_iff_not_bit [of s 1]
    and_exp_eq_0_iff_not_bit [of s 2] and_exp_eq_0_iff_not_bit [of s 3]
  by simp_all

lemma rank_headers_to_data:
  "s AND read_headers \<noteq> 0 \<Longrightarrow>
   state_rank (((s AND NOT waiting_for_first_data) AND NOT read_headers) OR read_data)
     < state_rank s"
  "s AND read_headers \<noteq> 0 \<Longrightarrow>
   state_rank ((s AND NOT read_headers) OR read_data) < state_rank s"
  by (simp_all add: state_rank_def flag_defs flag_bits bit_simps)

lemma rank_data_to_next:
  "s AND read_headers = 0 \<Longrightarrow> s AND read_data \<noteq> 0 \<Longrightarrow>
   (s AND NOT read_data) AND request_processed \<noteq> 0 \<Longrightarrow> 3 < state_rank s"
  using flag_bits(1) [of s]
  by (simp add: state_rank_def flag_defs flag_bits bit_simps)

lemma rank_fresh: "state_rank (read_headers OR waiting_for_first_data) = 2"
  by (simp add: state_rank_def flag_defs)


lemma m_state_emit [simp]: "m_state (emit a c) = m_state c"
  by (simp add: emit_def split: action.splits)

lemma m_state_send_error [simp]: "m_state (send_error w c t) = m_state c"
  by (simp add: send_error_def send_headers_def send_impl_def send_nolock_def Let_def)

lemma m_state_print_access_log [simp]: "m_state (print_access_log c) = m_state c"
  by (simp add: print_access_log_def)

lemma SAFE_CALL_cases:
  "SAFE_CALL c e p h =
     (case e of
        Inr r \<Rightarrow> Value r
      | Inl ex \<Rightarrow> if safe_mode c then Caught (h (caught c p ex)) else Uncaught ex)"
  by (simp add: SAFE_CALL_def split: sum.splits)

lemma m_state_caught [simp]: "m_state (caught c p ex) = m_state c"
  by (simp add: caught_def)

lemma m_state_parse_headers:
  "parse_headers w c b e = (r, nb, c') \<Longrightarrow>
   m_state c' = m_state c AND NOT waiting_for_first_data"
  using and_exp_eq_0_iff_not_bit [of "m_state c" 3]
  by (auto simp: parse_headers_def Let_def flag_defs bit_eq_iff bit_simps split: if_splits)

lemma m_state_dispatch_request:
  "dispatch_request w c = Value c' \<Longrightarrow> m_state c' = m_state c"
  by (auto simp: dispatch_request_def attach_handler_def Let_def SAFE_CALL_cases
      split: option.splits sum.splits if_splits)

lemma m_state_deliver_body:
  "deliver_body w c b e = Value (n, c') \<Longrightarrow> m_state c' = m_state c"
  by (auto simp: deliver_body_def Let_def SAFE_CALL_cases
      split: option.splits sum.splits if_splits)

lemma m_state_call_on_close:
  "call_on_close w c h err p eh = Value c' \<Longrightarrow> m_state c' = m_state c"
  by (auto simp: call_on_close_def Let_def SAFE_CALL_cases split: sum.splits if_splits)

lemma m_state_body_complete:
  "body_complete w c = Value c' \<Longrightarrow> m_state c' = m_state c"
  by (auto simp: body_complete_def m_state_call_on_close split: option.splits)

lemma m_state_count_processed [simp]: "m_state (count_processed c n) = m_state c"
  by (simp add: count_processed_def)

lemma m_state_park [simp]: "m_state (park c b e) = m_state c"
  by (simp add: park_def)

lemma m_state_reset_request [simp]:
  "m_state (reset_request w c) = read_headers OR waiting_for_first_data"
  by (simp add: reset_request_def)

subsection \<open>process_data and process_next\<close>

text \<open>
  A call with a null pointer (which \<^verbatim>\<open>begin != end\<close> lets through only when exactly
  one of the two cursors is null) has no defined behaviour in the source; the model
  leaves the connection as it is.
\<close>

function
  process_data ::
    "('p, 'h) world \<Rightarrow> ('p, 'h) connection \<Rightarrow> nat \<Rightarrow> nat \<Rightarrow> exn + ('p, 'h) connection"
and
  process_next :: "('p, 'h) world \<Rightarrow> ('p, 'h) connection \<Rightarrow> exn + ('p, 'h) connection"
where
  "process_data w c begin end =
     (if m_state c AND read_headers \<noteq> 0 then
        (case parse_headers w c begin end of
           (result, new_begin, c2) \<Rightarrow>
             (case result of
                TriFalse \<Rightarrow> Inr (send_error w (reject_request c2) bad_request)
              | TriTrue \<Rightarrow>
                  (case dispatch_request w (accept_request c2) of
                     Uncaught ex \<Rightarrow> Inl ex
                   | Caught c' \<Rightarrow> Inr c'
                   | Value c3 \<Rightarrow> process_data w (enter_read_data c3) new_begin end)
              | Indeterminate \<Rightarrow> Inr (async_read c2)))
      else if m_state c AND read_data \<noteq> 0 then
        (case deliver_body w c begin end of
           Uncaught ex \<Rightarrow> Inl ex
         | Caught c' \<Rightarrow> Inr c'
         | Value (processed_size, c0) \<Rightarrow>
             (let c1 = count_processed c0 processed_size
              in if data_from_body c begin end \<noteq> processed_size then
                   Inr (park c1 (begin + unat processed_size) end)
                 else if m_content_length c1 > 0 then Inr (async_read c1)
                 else
                   (case body_complete w
                           (park (c1\<lparr>m_state := m_state c1 AND NOT read_data\<rparr>)
                              (begin + unat processed_size) end) of
                      Uncaught ex \<Rightarrow> Inl ex
                    | Caught c' \<Rightarrow> Inr c'
                    | Value c2 \<Rightarrow>
                        if m_state c2 AND request_processed \<noteq> 0
                        then process_next w c2 else Inr c2)))
      else Inr c)"
| "process_next w c =
     (let c1 = reset_request w c
      in if m_unprocessed_begin c1 \<noteq> m_unprocessed_end c1 then
           (case m_unprocessed_begin c1 of
              Some b \<Rightarrow>
                (case m_unprocessed_end c1 of
                   Some e \<Rightarrow> process_data w c1 b e
                 | None \<Rightarrow> Inr c1)
            | None \<Rightarrow> Inr c1)
         else Inr (async_read c1))"
  by pat_completeness auto

termination process_data
proof (relation "measure (\<lambda>x. case x of
          Inl (w, c, b, e) \<Rightarrow> state_rank (m_state c) | Inr (w, c) \<Rightarrow> 3)", goal_cases)
  case 1
  show ?case by simp
next
  case (2 w c b e result rest new_begin c2 c3)
  then have "parse_headers w c b e = (result, new_begin, c2)"
    by simp
  with 2 have "m_state c3 = m_state c AND NOT waiting_for_first_data"
    using m_state_parse_headers [of w c b e result new_begin c2]
      m_state_dispatch_request [of w "accept_request c2" c3]
    by (simp add: accept_request_def)
  with 2 show ?case
    by (simp add: enter_read_data_def rank_headers_to_data)
next
  case (3 w c b e r processed_size c0 c1 c2)
  then have "deliver_body w c b e = Value (processed_size, c0)"
    by simp
  with 3 have "m_state c2 = m_state c AND NOT read_data"
    using m_state_deliver_body [of w c b e processed_size c0]
      m_state_body_complete [of w _ c2]
    by simp
  with 3 show ?case
    by (simp add: rank_data_to_next)
next
  case 4
  then show ?case by (simp add: rank_fresh)
qed

declare process_data.simps [simp del] process_next.simps [simp del]

subsection \<open>The members run by the io_service\<close>

definition want_more_impl ::
  "('p, 'h) world \<Rightarrow> ('p, 'h) connection \<Rightarrow> exn + ('p, 'h) connection" where
  "want_more_impl w c =
     (if m_unprocessed_begin c \<noteq> m_unprocessed_end c then
        (case m_unprocessed_begin c of
           Some b \<Rightarrow>
             (case m_unprocessed_end c of
                Some e \<Rightarrow> process_data w c b e
              | None \<Rightarrow> Inr c)
         | None \<Rightarrow> Inr c)
      else Inr (async_read c))"

definition close_impl ::
  "('p, 'h) world \<Rightarrow> ('p, 'h) connection \<Rightarrow> error_code \<Rightarrow> exn + ('p, 'h) connection" where
  "close_impl w c err =
     (let c1 = (if m_handler c \<noteq> None
                then c\<lparr>active_connections_counter := active_connections_counter c - 1\<rparr>
                else c)\<lparr>m_handler := None\<rparr>
      in if err \<noteq> 0 then
           (let c2 = (if m_access_status c1 \<noteq> 499 then c1\<lparr>m_access_status := 599\<rparr> else c1)
            in Inr (emit Shutdown (print_access_log c2)))
         else if m_state c1 \<noteq> processing_request then
           (let c2 = c1\<lparr>m_state := m_state c1 OR request_processed\<rparr>
            in if m_unprocessed_begin c2 \<noteq> m_unprocessed_end c2 then
                 (case m_unprocessed_begin c2 of
                    Some b \<Rightarrow>
                      (case m_unprocessed_end c2 of
                         Some e \<Rightarrow> process_data w c2 b e
                       | None \<Rightarrow> Inr c2)
                  | None \<Rightarrow> Inr c2)
               else Inr (async_read c2))
         else if \<not> m_keep_alive c1 then Inr (emit Shutdown (print_access_log c1))
         else process_next w c1)"

text \<open>
  \<^verbatim>\<open>handle_read\<close> runs when the socket has stored \<open>bytes_transferred\<close> bytes at the
  start of \<^verbatim>\<open>m_buffer\<close>; \<open>socket_received\<close> is that store.
\<close>

definition socket_received :: "bytes \<Rightarrow> ('p, 'h) connection \<Rightarrow> ('p, 'h) connection" where
  "socket_received data c = c\<lparr>m_buffer := data @ drop (length data) (m_buffer c)\<rparr>"

definition handle_read ::
  "('p, 'h) world \<Rightarrow> ('p, 'h) connection \<Rightarrow> error_code \<Rightarrow> nat \<Rightarrow> exn + ('p, 'h) connection" where
  "handle_read w c err bytes_transferred =
     (let c0 = c\<lparr>m_at_read := False\<rparr>
      in if err \<noteq> 0 then
           (let c1 = print_access_log (c0\<lparr>m_access_status := 499\<rparr>)
            in case m_handler c1 of
                 Some h \<Rightarrow>
                   (case call_on_close w c1 h err
                           ''connection::handle_read -> on_close'' SAFE_SEND_NONE of
                      Uncaught ex \<Rightarrow> Inl ex
                    | Caught c' \<Rightarrow>
                        Inr (c'\<lparr>active_connections_counter := active_connections_counter c' - 1,
                                m_handler := None\<rparr>)
                    | Value c' \<Rightarrow>
                        Inr (c'\<lparr>active_connections_counter := active_connections_counter c' - 1,
                                m_handler := None\<rparr>))
               | None \<Rightarrow> Inr (c1\<lparr>m_handler := None\<rparr>))
         else process_data w c0 0 bytes_transferred)"

text \<open>The destructor; the connection ceases to exist afterwards.\<close>

definition destructor ::
  "('p, 'h) world \<Rightarrow> ('p, 'h) connection \<Rightarrow> exn + ('p, 'h) connection" where
  "destructor w c =
     (let c1 = (if m_server c then c\<lparr>connections_counter := connections_counter c - 1\<rparr> else c)
      in case m_handler c1 of
           Some h \<Rightarrow>
             (case call_on_close w (print_access_log (c1\<lparr>m_access_status := 597\<rparr>)) h 0
                     ''connection::~connection -> on_close'' SAFE_SEND_NONE of
                Uncaught ex \<Rightarrow> Inl ex
              | Caught c' \<Rightarrow> Inr c'
              | Value c' \<Rightarrow> Inr c')
         | None \<Rightarrow> Inr c1)"

subsection \<open>write_finished\<close>

text \<open>Calling a completion callback with an error code.\<close>

definition invoke ::
  "('p, 'h) world \<Rightarrow> ('p, 'h) connection \<Rightarrow> callback \<Rightarrow> error_code
     \<Rightarrow> exn + ('p, 'h) connection" where
  "invoke w c cb err =
     (case cb of
        NoCallback \<Rightarrow> Inr c
      | UserCallback k \<Rightarrow> Inr (emit (Completion k err) c)
      | CloseImpl \<Rightarrow> close_impl w c err)"

text \<open>The loop over the queue that was moved out of \<^verbatim>\<open>m_outgoing\<close> on a write error.\<close>

fun flush_outgoing ::
  "('p, 'h) world \<Rightarrow> ('p, 'h) connection \<Rightarrow> buffer_info list \<Rightarrow> error_code
     \<Rightarrow> exn + ('p, 'h) connection" where
  "flush_outgoing w c [] err = Inr c"
| "flush_outgoing w c (it # rest) err =
     (case invoke w c (handler it) err of
        Inl ex \<Rightarrow> Inl ex
      | Inr c' \<Rightarrow> flush_outgoing w c' rest err)"

text \<open>
  The loop over the ranges of the front item: the ranges from \<^verbatim>\<open>it\<close> on
  (with \<^verbatim>\<open>*it\<close> advanced when it was written in part) and what is left of
  \<^verbatim>\<open>bytes_written\<close>. The first component is empty exactly when \<^verbatim>\<open>it\<close> reached
  \<^verbatim>\<open>buffers.end()\<close>.
\<close>

fun consume_ranges :: "bytes list \<Rightarrow> nat \<Rightarrow> bytes list \<times> nat" where
  "consume_ranges [] bytes_written = ([], bytes_written)"
| "consume_ranges (it # rest) bytes_written =
     (if length it \<le> bytes_written then consume_ranges rest (bytes_written - length it)
      else (drop bytes_written it # rest, 0))"

subsection \<open>Facts needed to define the loop of write_finished\<close>

text \<open>
  \<open>item_size\<close> is the \<^verbatim>\<open>buffer_size\<close> that lines 230 to 233 add up (the source
  computes it and does not use it). A completion callback run inside the loop can
  append to the queue only through \<^verbatim>\<open>send_error\<close>, whose item is not empty; so the
  number of queued items without a byte never grows inside the loop.
\<close>

definition item_size :: "buffer_info \<Rightarrow> nat" where
  "item_size it = sum_list (map length (buffer it))"

definition empty_items :: "buffer_info list \<Rightarrow> nat" where
  "empty_items queue = length (filter (\<lambda>it. item_size it = 0) queue)"

definition queue_rank :: "('p, 'h) connection \<Rightarrow> nat" where
  "queue_rank c = empty_items (m_outgoing c)"

lemma queue_rank_emit [simp]: "queue_rank (emit a c) = queue_rank c"
  by (simp add: emit_def queue_rank_def split: action.splits)

lemma queue_rank_print_access_log [simp]: "queue_rank (print_access_log c) = queue_rank c"
  by (simp add: print_access_log_def)

lemma queue_rank_async_read [simp]: "queue_rank (async_read c) = queue_rank c"
  by (simp add: async_read_def) (simp add: queue_rank_def)

lemma queue_rank_caught [simp]: "queue_rank (caught c p ex) = queue_rank c"
  by (simp add: caught_def) (simp add: queue_rank_def emit_def)

lemma queue_rank_SAFE_SEND_ERROR [simp]: "queue_rank (SAFE_SEND_ERROR c) = queue_rank c"
  by (simp add: SAFE_SEND_ERROR_def queue_rank_def emit_def)

lemma queue_rank_send_error [simp]: "queue_rank (send_error w c t) = queue_rank c"
  by (simp add: send_error_def send_headers_def send_impl_def send_nolock_def Let_def
      empty_items_def item_size_def to_buffers_def queue_rank_def emit_def)

lemma queue_rank_updates [simp]:
  "queue_rank (reject_request c) = queue_rank c"
  "queue_rank (accept_request c) = queue_rank c"
  "queue_rank (enter_read_data c) = queue_rank c"
  "queue_rank (count_processed c n) = queue_rank c"
  "queue_rank (park c b e) = queue_rank c"
  "queue_rank (reset_request w c) = queue_rank c"
  "queue_rank (c\<lparr>m_state := s\<rparr>) = queue_rank c"
  "queue_rank (c\<lparr>m_handler := h\<rparr>) = queue_rank c"
  "queue_rank (c\<lparr>m_access_status := st\<rparr>) = queue_rank c"
  "queue_rank (c\<lparr>active_connections_counter := k\<rparr>) = queue_rank c"
  "queue_rank (c\<lparr>receipts := rs\<rparr>) = queue_rank c"
  by (simp_all add: reject_request_def accept_request_def enter_read_data_def
      count_processed_def park_def reset_request_def queue_rank_def print_access_log_def emit_def)

lemma queue_rank_parse_headers:
  "parse_headers w c b e = (r, nb, c') \<Longrightarrow> queue_rank c' = queue_rank c"
  by (auto simp: parse_headers_def Let_def queue_rank_def split: if_splits)

lemma queue_rank_SAFE_CALL:
  "SAFE_CALL c e p SAFE_SEND_ERROR = Caught c' \<Longrightarrow> queue_rank c' = queue_rank c"
  by (auto simp: SAFE_CALL_cases split: sum.splits if_splits)

lemma queue_rank_dispatch_request:
  "dispatch_request w c = Value c' \<Longrightarrow> queue_rank c' = queue_rank c"
  "dispatch_request w c = Caught c' \<Longrightarrow> queue_rank c' = queue_rank c"
  by (auto simp: dispatch_request_def attach_handler_def Let_def
      split: option.splits safe_call.splits dest!: queue_rank_SAFE_CALL)

lemma queue_rank_deliver_body:
  "deliver_body w c b e = Value (n, c') \<Longrightarrow> queue_rank c' = queue_rank c"
  "deliver_body w c b e = Caught c' \<Longrightarrow> queue_rank c' = queue_rank c"
  by (auto simp: deliver_body_def Let_def
      split: option.splits safe_call.splits if_splits dest!: queue_rank_SAFE_CALL)

lemma queue_rank_body_complete:
  "body_complete w c = Value c' \<Longrightarrow> queue_rank c' = queue_rank c"
  "body_complete w c = Caught c' \<Longrightarrow> queue_rank c' = queue_rank c"
  by (auto simp: body_complete_def call_on_close_def Let_def
      split: option.splits safe_call.splits if_splits dest!: queue_rank_SAFE_CALL)

lemma queue_rank_process:
  "process_data w c b e = Inr c' \<Longrightarrow> queue_rank c' = queue_rank c"
  "process_next w c = Inr c' \<Longrightarrow> queue_rank c' = queue_rank c"
proof (induction w c b e and w c arbitrary: c' and c' rule: process_data_process_next.induct)
  case (1 w c b e)
  show ?case
  proof (cases "m_state c AND read_headers \<noteq> 0")
    case True
    obtain r nb c2 where p: "parse_headers w c b e = (r, nb, c2)"
      by (cases "parse_headers w c b e") auto
    note q = queue_rank_parse_headers [OF p]
    show ?thesis
    proof (cases r)
      case TriTrue
      show ?thesis
      proof (cases "dispatch_request w (accept_request c2)")
        case (Value c3)
        have "process_data w (enter_read_data c3) nb e = Inr c'"
          using "1.prems" True p TriTrue Value by (simp add: process_data.simps)
        then have "queue_rank c' = queue_rank (enter_read_data c3)"
          using "1.IH"(1) [OF True p [symmetric] refl TriTrue Value] by simp
        then show ?thesis
          using q queue_rank_dispatch_request(1) [OF Value] by simp
      next
        case (Caught c3)
        then show ?thesis
          using "1.prems" True p TriTrue q queue_rank_dispatch_request(2) [OF Caught]
          by (simp add: process_data.simps)
      next
        case (Uncaught ex)
        then show ?thesis
          using "1.prems" True p TriTrue by (simp add: process_data.simps)
      qed
    next
      case TriFalse
      then show ?thesis
        using "1.prems" True p q by (auto simp: process_data.simps)
    next
      case Indeterminate
      then show ?thesis
        using "1.prems" True p q by (auto simp: process_data.simps)
    qed
  next
    case False
    note nh = False
    show ?thesis
    proof (cases "m_state c AND read_data \<noteq> 0")
      case False
      then show ?thesis
        using "1.prems" nh by (simp add: process_data.simps)
    next
      case True
      show ?thesis
      proof (cases "deliver_body w c b e")
        case (Uncaught ex)
        then show ?thesis
          using "1.prems" nh True by (simp add: process_data.simps)
      next
        case (Caught c3)
        then show ?thesis
          using "1.prems" nh True queue_rank_deliver_body(2) [OF Caught]
          by (simp add: process_data.simps)
      next
        case (Value r)
        obtain n c0 where r: "r = (n, c0)" by (cases r)
        note d = Value [unfolded r]
        note q0 = queue_rank_deliver_body(1) [OF d]
        let ?c1 = "count_processed c0 n"
        let ?c2 = "park (?c1\<lparr>m_state := m_state ?c1 AND NOT read_data\<rparr>) (b + unat n) e"
        show ?thesis
        proof (cases "data_from_body c b e \<noteq> n \<or> m_content_length ?c1 > 0")
          case True
          then show ?thesis
            using "1.prems" nh \<open>m_state c AND read_data \<noteq> 0\<close> d q0
            by (auto simp: process_data.simps Let_def split: if_splits)
        next
          case False
          show ?thesis
          proof (cases "body_complete w ?c2")
            case (Uncaught ex)
            then show ?thesis
              using "1.prems" nh \<open>m_state c AND read_data \<noteq> 0\<close> d False
              by (simp add: process_data.simps Let_def)
          next
            case (Caught c3)
            then show ?thesis
              using "1.prems" nh \<open>m_state c AND read_data \<noteq> 0\<close> d False q0
                queue_rank_body_complete(2) [OF Caught]
              by (simp add: process_data.simps Let_def)
          next
            case (Value c4)
            note q4 = queue_rank_body_complete(1) [OF Value]
            show ?thesis
            proof (cases "m_state c4 AND request_processed \<noteq> 0")
              case True
              have "process_next w c4 = Inr c'"
                using "1.prems" nh \<open>m_state c AND read_data \<noteq> 0\<close> d False Value True
                by (simp add: process_data.simps Let_def)
              then have "queue_rank c' = queue_rank c4"
                using "1.IH"(2) [OF nh \<open>m_state c AND read_data \<noteq> 0\<close> d refl refl _ _ Value True]
                  False by simp
              then show ?thesis using q4 q0 by simp
            next
              case nrp: False
              then show ?thesis
                using "1.prems" nh \<open>m_state c AND read_data \<noteq> 0\<close> d False Value q4 q0
                by (simp add: process_data.simps Let_def)
            qed
          qed
        qed
      qed
    qed
  qed
next
  case (2 w c)
  let ?c1 = "reset_request w c"
  show ?case
  proof (cases "m_unprocessed_begin ?c1 \<noteq> m_unprocessed_end ?c1")
    case False
    then show ?thesis
      using "2.prems" by (auto simp: process_next.simps Let_def)
  next
    case True
    show ?thesis
    proof (cases "m_unprocessed_begin ?c1")
      case None
      then show ?thesis
        using "2.prems" True by (auto simp: process_next.simps Let_def)
    next
      case (Some bb)
      note sb = Some
      show ?thesis
      proof (cases "m_unprocessed_end ?c1")
        case None
        then show ?thesis
          using "2.prems" True sb by (auto simp: process_next.simps Let_def)
      next
        case (Some ee)
        have "process_data w ?c1 bb ee = Inr c'"
          using "2.prems" True sb Some by (simp add: process_next.simps Let_def)
        then have "queue_rank c' = queue_rank ?c1"
          using "2.IH" [OF refl True sb Some] by simp
        then show ?thesis by simp
      qed
    qed
  qed
qed


lemma queue_rank_close_impl:
  "close_impl w c err = Inr c' \<Longrightarrow> queue_rank c' = queue_rank c"
  by (auto simp: close_impl_def Let_def split: if_splits option.splits
      dest!: queue_rank_process)

lemma queue_rank_invoke:
  "invoke w c cb err = Inr c' \<Longrightarrow> queue_rank c' = queue_rank c"
  by (auto simp: invoke_def split: callback.splits dest!: queue_rank_close_impl)

lemma consume_ranges_le: "consume_ranges bs n = (rs, left) \<Longrightarrow> left \<le> n"
  by (induction bs n arbitrary: rs left rule: consume_ranges.induct)
     (auto split: if_splits intro: le_trans)

lemma consume_ranges_Cons: "consume_ranges bs n = (r # rs, left) \<Longrightarrow> left = 0"
  by (induction bs n rule: consume_ranges.induct) (auto split: if_splits)

lemma consume_ranges_Nil:
  "consume_ranges bs n = ([], left) \<Longrightarrow> left + sum_list (map length bs) = n"
  by (induction bs n rule: consume_ranges.induct) (auto split: if_splits)

text \<open>
  The \<^verbatim>\<open>while (bytes_written)\<close> loop of lines 219 to 257. A callback supplied by the
  handler is recorded in the trace and does nothing else.
\<close>

function write_finished_loop ::
  "('p, 'h) world \<Rightarrow> ('p, 'h) connection \<Rightarrow> nat \<Rightarrow> exn + ('p, 'h) connection" where
  "write_finished_loop w c bytes_written =
     (if bytes_written = 0 then Inr c
      else
        (case m_outgoing c of
           [] \<Rightarrow> Inr (emit (ExtraWrittenBytes bytes_written) c)
         | front # rest \<Rightarrow>
             (case consume_ranges (buffer front) bytes_written of
                ([], left) \<Rightarrow>
                  (case invoke w (c\<lparr>m_outgoing := rest\<rparr>) (handler front) 0 of
                     Inl ex \<Rightarrow> Inl ex
                   | Inr c' \<Rightarrow> write_finished_loop w c' left)
              | (it # its, left) \<Rightarrow>
                  write_finished_loop w
                    (c\<lparr>m_outgoing := front\<lparr>buffer := it # its\<rparr> # rest\<rparr>) left)))"
  by pat_completeness auto

termination
proof (relation "measures [\<lambda>(w, c, n). n, \<lambda>(w, c, n). queue_rank c]", goal_cases)
  case 1
  show ?case by simp
next
  case (2 w c n front rest rs left c')
  then have cr: "consume_ranges (buffer front) n = ([], left)"
    by simp
  have q: "queue_rank c' = empty_items rest"
    using queue_rank_invoke [OF 2(5)] by (simp add: queue_rank_def)
  show ?case
  proof (cases "left < n")
    case True
    then show ?thesis by simp
  next
    case False
    with consume_ranges_le [OF cr] consume_ranges_Nil [OF cr]
    have "left = n \<and> sum_list (map length (buffer front)) = 0"
      by arith
    then have "left = n" "item_size front = 0"
      unfolding item_size_def by blast+
    with q 2(2) show ?thesis
      by (simp add: queue_rank_def empty_items_def)
  qed
next
  case (3 w c n front rest rs left it its)
  then have "consume_ranges (buffer front) n = (it # its, left)"
    by simp
  from consume_ranges_Cons [OF this] 3(1) show ?case
    by simp
qed

declare write_finished_loop.simps [simp del]

definition write_finished ::
  "('p, 'h) world \<Rightarrow> ('p, 'h) connection \<Rightarrow> error_code \<Rightarrow> nat \<Rightarrow> exn + ('p, 'h) connection" where
  "write_finished w c err bytes_written =
     (let c0 = c\<lparr>m_access_sent := m_access_sent c + of_nat bytes_written\<rparr>
      in if err \<noteq> 0 then
           (case flush_outgoing w (c0\<lparr>m_outgoing := []\<rparr>) (m_outgoing c0) err of
              Inl ex \<Rightarrow> Inl ex
            | Inr c1 \<Rightarrow>
                (let c2 = c1\<lparr>m_access_status := 499\<rparr>
                 in case (case m_handler c2 of
                            Some h \<Rightarrow>
                              call_on_close w c2 h err
                                ''connection::write_finished -> on_close'' SAFE_SEND_NONE
                          | None \<Rightarrow> Value c2) of
                      Uncaught ex \<Rightarrow> Inl ex
                    | Caught c' \<Rightarrow> close_impl w c' err
                    | Value c' \<Rightarrow> close_impl w c' err))
         else
           (case write_finished_loop w c0 bytes_written of
              Inl ex \<Rightarrow> Inl ex
            | Inr c1 \<Rightarrow>
                if m_outgoing c1 = [] then Inr (c1\<lparr>m_sending := False\<rparr>)
                else Inr (send_nolock c1)))"

subsection \<open>The life of a connection\<close>

text \<open>
  What happens to a connection once it has been started: the io_service completes a
  read (the socket has stored the bytes in \<^verbatim>\<open>m_buffer\<close>) or a write, runs a \<^verbatim>\<open>close\<close>
  or \<^verbatim>\<open>want_more\<close> that the handler asked for, the handler sends headers or data
  (with a completion callback of its own, or none), or the last reference goes away.
  \<open>run\<close> lets a sequence of such events happen; an exception that leaves an event
  ends the run.
\<close>

datatype event =
    ReadCompleted error_code bytes
  | WriteCompleted error_code nat
  | CloseCalled error_code
  | WantMoreCalled
  | SendHeadersCalled http_response bytes "nat option"
  | SendDataCalled bytes "nat option"
  | Destroyed

definition user_callback :: "nat option \<Rightarrow> callback" where
  "user_callback cb = (case cb of None \<Rightarrow> NoCallback | Some k \<Rightarrow> UserCallback k)"

fun occur ::
  "('p, 'h) world \<Rightarrow> ('p, 'h) connection \<Rightarrow> event \<Rightarrow> exn + ('p, 'h) connection" where
  "occur w c (ReadCompleted err data) =
     handle_read w (socket_received data c) err (length data)"
| "occur w c (WriteCompleted err bytes_written) = write_finished w c err bytes_written"
| "occur w c (CloseCalled err) = close_impl w c err"
| "occur w c WantMoreCalled = want_more_impl w c"
| "occur w c (SendHeadersCalled rep content cb) =
     Inr (send_headers w c rep content (user_callback cb))"
| "occur w c (SendDataCalled buf cb) = Inr (send_data c buf (user_callback cb))"
| "occur w c Destroyed = destructor w c"

fun run ::
  "('p, 'h) world \<Rightarrow> ('p, 'h) connection \<Rightarrow> event list \<Rightarrow> exn + ('p, 'h) connection" where
  "run w c [] = Inr c"
| "run w c (ev # evs) =
     (case occur w c ev of
        Inl ex \<Rightarrow> Inl ex
      | Inr c' \<Rightarrow> run w c' evs)"

section \<open>Concrete collaborators for the worked examples\<close>

text \<open>
  A small world to run the connection on: the parser takes one byte as a complete
  request head (\<open>G\<close>: a keep-alive GET of \<^verbatim>\<open>/x\<close>; \<open>P\<close>: a POST of \<^verbatim>\<open>/x\<close> with
  ten body bytes, not keep-alive; \<open>N\<close>: a keep-alive GET of \<^verbatim>\<open>/missing\<close>; \<open>M\<close>: a
  keep-alive POST of \<^verbatim>\<open>/missing\<close> with five body bytes; anything else is malformed),
  there is a factory for every URL but \<^verbatim>\<open>/missing\<close>, and a handler is the list of
  the byte counts it accepts in its next \<^verbatim>\<open>on_data\<close> calls (everything, once the list is
  used up).
\<close>

definition demo_request :: "string \<Rightarrow> string \<Rightarrow> 64 word option \<Rightarrow> bool \<Rightarrow> http_request" where
  "demo_request m u len ka =
     \<lparr>req_method = m, req_url = u, req_content_length = len, req_is_keep_alive = ka\<rparr>"

definition demo_parse :: "unit \<Rightarrow> http_request \<Rightarrow> bytes \<Rightarrow> tribool \<times> nat \<times> unit \<times> http_request" where
  "demo_parse p req data =
     (case data of
        [] \<Rightarrow> (Indeterminate, 0, p, req)
      | ch # rest \<Rightarrow>
          if ch = CHR ''G'' then (TriTrue, 1, p, demo_request ''GET'' ''/x'' None True)
          else if ch = CHR ''P'' then (TriTrue, 1, p, demo_request ''POST'' ''/x'' (Some 10) False)
          else if ch = CHR ''N'' then (TriTrue, 1, p, demo_request ''GET'' ''/missing'' None True)
          else if ch = CHR ''M'' then (TriTrue, 1, p, demo_request ''POST'' ''/missing'' (Some 5) True)
          else (TriFalse, 1, p, req))"

definition demo_world :: "(unit, nat list) world" where
  "demo_world =
     \<lparr>parse = demo_parse,
      parser_reset = (\<lambda>p. p),
      factory = (\<lambda>req. if req_url req = ''/missing'' then None else Some [4]),
      on_headers = (\<lambda>h req. Inr h),
      on_data = (\<lambda>h data. case h of [] \<Rightarrow> Inr (of_nat (length data), [])
                                  | k # ks \<Rightarrow> Inr (of_nat (min k (length data)), ks)),
      on_close = (\<lambda>h err. Inr h),
      format_head = (\<lambda>rep. ''reply'')\<rparr>"

definition demo_start :: "(unit, nat list) connection" where
  "demo_start = start ''local'' ''remote'' (new_connection 16 () False)"

definition demo_body_state :: "(unit, nat list) connection" where
  "demo_body_state =
     (new_connection 16 () False)
       \<lparr>m_buffer := ''P0123456789'', m_state := read_data, m_content_length := 10,
        m_handler := Some [4]\<rparr>"

text \<open>The same world with a handler that throws from every callback.\<close>

definition throwing_world :: "(unit, nat list) world" where
  "throwing_world =
     demo_world\<lparr>on_headers := (\<lambda>h req. Inl (StdException ''boom'')),
                on_data := (\<lambda>h data. Inl UnknownException),
                on_close := (\<lambda>h err. Inl (StdException ''late''))\<rparr>"

text \<open>The world with a handler that only throws from \<^verbatim>\<open>on_close\<close>.\<close>

definition late_world :: "(unit, nat list) world" where
  "late_world = demo_world\<lparr>on_close := (\<lambda>h err. Inl (StdException ''late''))\<rparr>"

definition demo_head_state :: "bool \<Rightarrow> (unit, nat list) connection" where
  "demo_head_state safe =
     (new_connection 16 () safe)\<lparr>m_buffer := ''G'', m_access_local := ''local'',
        m_access_remote := ''remote''\<rparr>"

text \<open>A connection with two queued items and a write in flight.\<close>

definition demo_item :: "bytes list \<Rightarrow> callback \<Rightarrow> buffer_info" where
  "demo_item ranges cb = \<lparr>buffer = ranges, response = None, handler = cb\<rparr>"

definition demo_queue_state :: "(unit, nat list) connection" where
  "demo_queue_state =
     (new_connection 16 () False)
       \<lparr>m_sending := True,
        m_outgoing := [demo_item [''abc'', ''de''] (UserCallback 1), demo_item [''fghij''] NoCallback]\<rparr>"

text \<open>
  Two connections whose write is about to fail: one with a handler and the queue above,
  one with a stock 404 reply queued and no handler.
\<close>

definition demo_reply_state :: "(unit, nat list) connection" where
  "demo_reply_state =
     demo_queue_state\<lparr>m_state := processing_request, m_handler := Some [],
       active_connections_counter := 1, m_access_status := 200\<rparr>"

definition demo_not_found_state :: "(unit, nat list) connection" where
  "demo_not_found_state =
     (new_connection 16 () False)
       \<lparr>m_state := processing_request, m_sending := True, m_access_status := 404,
        m_outgoing := [demo_item [''HTTP/1.1 reply'', []] CloseImpl]\<rparr>"

text \<open>A fresh connection whose read buffer holds the bytes just received.\<close>

definition demo_fresh_state :: "bytes \<Rightarrow> (unit, nat list) connection" where
  "demo_fresh_state received = (new_connection 16 () False)\<lparr>m_buffer := received\<rparr>"

text \<open>
  Two connections without a handler in the body phase: one whose request found no
  route, one whose handler has already closed.
\<close>

definition demo_sink_state :: "(unit, nat list) connection" where
  "demo_sink_state =
     (new_connection 16 () False)
       \<lparr>m_buffer := ''Mabcde'', m_state := read_data, m_content_length := 5,
        m_access_received := 1, m_access_status := 404\<rparr>"

definition demo_drain_state :: "(unit, nat list) connection" where
  "demo_drain_state =
     (new_connection 16 () False)
       \<lparr>m_buffer := ''456789'', m_state := read_data OR request_processed,
        m_content_length := 6, m_access_received := 5, m_access_status := 200\<rparr>"

section \<open>Vocabulary of the properties\<close>

text \<open>
  The access log line of a connection with a given status: nothing while the connection
  waits for its first data.
\<close>

definition log_line :: "('p, 'h) connection \<Rightarrow> int \<Rightarrow> action list" where
  "log_line c status =
     (if m_state c AND waiting_for_first_data \<noteq> 0 then []
      else [AccessLog ((access_entry c)\<lparr>log_status := status\<rparr>)])"

text \<open>
  What the queue flush of a failed write appends to the trace: a handler-supplied
  callback is called with the error; the connection's own \<^verbatim>\<open>close_impl\<close> callback
  prints the access log (status 599, or 499 if that was set) and shuts the socket down.
\<close>

definition closing :: "('p, 'h) connection \<Rightarrow> action list" where
  "closing c = log_line c (if m_access_status c = 499 then 499 else 599) @ [Shutdown]"

fun completions :: "('p, 'h) connection \<Rightarrow> buffer_info list \<Rightarrow> error_code \<Rightarrow> action list" where
  "completions c [] err = []"
| "completions c (it # rest) err =
     (case handler it of
        NoCallback \<Rightarrow> []
      | UserCallback k \<Rightarrow> [Completion k err]
      | CloseImpl \<Rightarrow> closing c) @ completions c rest err"

text \<open>
  What the receipts of a request add up to, by kind: the header bytes the parser
  consumed, the body bytes the handler acknowledged, the body bytes that passed while
  no handler was attached. The counters of the source are 64-bit, so are the sums.
\<close>

fun header_bytes :: "receipt list \<Rightarrow> 64 word" where
  "header_bytes [] = 0"
| "header_bytes (Parsed n # rest) = of_nat n + header_bytes rest"
| "header_bytes (r # rest) = header_bytes rest"

fun acknowledged_bytes :: "receipt list \<Rightarrow> 64 word" where
  "acknowledged_bytes [] = 0"
| "acknowledged_bytes (Acknowledged n # rest) = n + acknowledged_bytes rest"
| "acknowledged_bytes (r # rest) = acknowledged_bytes rest"

fun unattended_bytes :: "receipt list \<Rightarrow> 64 word" where
  "unattended_bytes [] = 0"
| "unattended_bytes (Unattended n # rest) = n + unattended_bytes rest"
| "unattended_bytes (r # rest) = unattended_bytes rest"

definition receipts_total :: "receipt list \<Rightarrow> 64 word" where
  "receipts_total rs = header_bytes rs + acknowledged_bytes rs + unattended_bytes rs"

text \<open>The access log lines of a trace, in the order they were printed.\<close>

fun access_lines :: "action list \<Rightarrow> access_entry list" where
  "access_lines [] = []"
| "access_lines (AccessLog entry # rest) = entry # access_lines rest"
| "access_lines (a # rest) = access_lines rest"

text \<open>
  The books are in order when the counter of bytes received is the total of the
  receipts of the current request, and every access log line printed so far reports the
  total of the receipts its request had when the line was printed.
\<close>

definition accounted :: "('p, 'h) connection \<Rightarrow> bool" where
  "accounted c \<longleftrightarrow>
     m_access_received c = receipts_total (receipts c)
     \<and> map log_received (access_lines (trace c)) = map receipts_total (reported c)"

section \<open>Properties\<close>

lemmas demo_defs = demo_start_def demo_world_def demo_parse_def demo_request_def
  new_connection_def start_def socket_received_def handle_read_def
  demo_body_state_def demo_head_state_def throwing_world_def late_world_def demo_item_def
  demo_queue_state_def demo_reply_state_def demo_not_found_state_def
  demo_fresh_state_def demo_sink_state_def demo_drain_state_def

lemmas step_defs = async_read_def emit_def access_entry_def print_access_log_def
  parse_headers_def
  reject_request_def accept_request_def attach_handler_def dispatch_request_def
  enter_read_data_def data_from_body_def deliver_body_def count_processed_def park_def
  call_on_close_def body_complete_def reset_request_def range_bytes_def SAFE_CALL_def
  caught_def SAFE_SEND_ERROR_def SAFE_SEND_NONE_def send_error_def send_headers_def
  send_impl_def send_nolock_def stock_reply_def set_keep_alive_def to_buffers_def
  buffers_array_def buffers_count_def flag_defs Let_def not_found_def bad_request_def
  uncaught_message_def empty_request_def

lemmas run_defs = process_data.simps process_next.simps close_impl_def want_more_impl_def
  write_finished_def write_finished_loop.simps invoke_def destructor_def








text \<open>
  C2. A request that is not keep-alive announces ten body bytes; four arrive with the
  headers, the handler takes them, replies and calls \<^verbatim>\<open>close\<close> without an error.
  \<open>close_impl\<close> sets \<^verbatim>\<open>request_processed\<close> and the remaining six bytes are drained
  without a handler, as the claim says. When the body is complete, \<open>process_data\<close>
  calls \<open>process_next\<close> without looking at \<^verbatim>\<open>m_keep_alive\<close>: the socket is not shut
  down, the connection returns to its initial state and posts a read for the next
  request.
\<close>

theorem drained_request_ignores_keep_alive:
  "\<exists>c1 c2 c3.
      handle_read demo_world (socket_received ''P0123'' demo_start) 0 5 = Inr c1
      \<and> m_content_length c1 = 6 \<and> m_handler c1 = Some [] \<and> \<not> m_keep_alive c1
      \<and> close_impl demo_world
            (send_headers demo_world c1 \<lparr>rep_code = 200, rep_keep_alive = False\<rparr> ''ok'' NoCallback)
            0 = Inr c2
      \<and> m_state c2 = read_data OR request_processed \<and> m_handler c2 = None
      \<and> handle_read demo_world (socket_received ''456789'' c2) 0 6 = Inr c3
      \<and> \<not> m_keep_alive c3
      \<and> m_state c3 = read_headers OR waiting_for_first_data
      \<and> Shutdown \<notin> set (trace c3)
      \<and> trace c3 =
          [AsyncReadSome, Initialize, OnHeaders (demo_request ''POST'' ''/x'' (Some 10) False),
           OnData ''0123'', AsyncReadSome,
           AsyncWriteSome [''HTTP/1.1 reply'', ''ok''],
           AccessLog \<lparr>log_method = ''POST'', log_url = ''/x'', log_local = ''local'',
             log_remote = ''remote'', log_status = 200, log_received = 11, log_sent = 0\<rparr>,
           AsyncReadSome]"
  by (simp add: demo_defs step_defs run_defs)

text \<open>
  Facts about the queue flush of a failed write, used by several properties below.
  \<^verbatim>\<open>close_impl\<close> with an error releases the handler, turns every status but 499 into
  599, prints the access log and shuts the socket down.
\<close>

lemma completions_cong:
  "closing c1 = closing c \<Longrightarrow> completions c1 items err = completions c items err"
  by (induction items) (auto split: callback.splits)


lemma closing_frame [simp]:
  "closing (c\<lparr>trace := t\<rparr>) = closing c"
  "closing (c\<lparr>reported := rp\<rparr>) = closing c"
  "closing (c\<lparr>m_handler := hv\<rparr>) = closing c"
  "closing (c\<lparr>active_connections_counter := k\<rparr>) = closing c"
  "closing (c\<lparr>m_outgoing := q\<rparr>) = closing c"
  "closing (c\<lparr>m_access_status := (if m_access_status c = 499 then 499 else 599)\<rparr>) = closing c"
  by (simp_all add: closing_def log_line_def access_entry_def)

lemma completions_frame [simp]:
  "completions (c\<lparr>trace := t\<rparr>) items err = completions c items err"
  "completions (c\<lparr>reported := rp\<rparr>) items err = completions c items err"
  "completions (c\<lparr>m_handler := hv\<rparr>) items err = completions c items err"
  "completions (c\<lparr>active_connections_counter := k\<rparr>) items err = completions c items err"
  "completions (c\<lparr>m_outgoing := q\<rparr>) items err = completions c items err"
  "completions (c\<lparr>m_access_status := (if m_access_status c = 499 then 499 else 599)\<rparr>)
     items err = completions c items err"
  by (rule completions_cong, simp)+


lemma flush_outgoing_user_callbacks:
  "CloseImpl \<notin> handler ` set items \<Longrightarrow>
   flush_outgoing w c items err = Inr (c\<lparr>trace := trace c @ completions c items err\<rparr>)"
proof (induction items arbitrary: c)
  case Nil
  show ?case by simp
next
  case (Cons it items)
  from Cons show ?case
    by (cases "handler it") (auto simp: invoke_def emit_def)
qed

lemma completions_user_callbacks:
  "CloseImpl \<notin> handler ` set items \<Longrightarrow>
   completions c1 items err = completions c2 items err"
  by (induction items) (auto split: callback.splits)

text \<open>
  A rule for properties of the connection that every step of \<open>process_data\<close> and
  \<open>process_next\<close> keeps: if each block keeps the property, so do the two functions,
  whatever the recursion does.
\<close>

lemma process_invariant:
  assumes parsed: "\<And>c b e r nb c2. P c \<Longrightarrow> parse_headers w c b e = (r, nb, c2) \<Longrightarrow> P c2"
    and rejected: "\<And>c. P c \<Longrightarrow> P (send_error w (reject_request c) bad_request)"
    and reading: "\<And>c. P c \<Longrightarrow> P (async_read c)"
    and dispatched: "\<And>c c'. P c \<Longrightarrow> dispatch_request w (accept_request c) = Value c'
        \<Longrightarrow> P (enter_read_data c')"
    and dispatch_failed: "\<And>c c'. P c \<Longrightarrow> dispatch_request w (accept_request c) = Caught c'
        \<Longrightarrow> P c'"
    and delivered: "\<And>c b e n c0. P c \<Longrightarrow> deliver_body w c b e = Value (n, c0)
        \<Longrightarrow> P (count_processed c0 n)"
    and deliver_failed: "\<And>c b e c'. P c \<Longrightarrow> deliver_body w c b e = Caught c' \<Longrightarrow> P c'"
    and parked: "\<And>c b e. P c \<Longrightarrow> P (park c b e)"
    and cleared: "\<And>c. P c \<Longrightarrow> P (c\<lparr>m_state := m_state c AND NOT read_data\<rparr>)"
    and completed: "\<And>c c'. P c \<Longrightarrow> body_complete w c = Value c' \<Longrightarrow> P c'"
    and complete_failed: "\<And>c c'. P c \<Longrightarrow> body_complete w c = Caught c' \<Longrightarrow> P c'"
    and reset: "\<And>c. P c \<Longrightarrow> P (reset_request w c)"
  shows "process_data w c b e = Inr c' \<Longrightarrow> P c \<Longrightarrow> P c'"
    and "process_next w c = Inr c' \<Longrightarrow> P c \<Longrightarrow> P c'"
  using assms
proof (induction w c b e and w c arbitrary: c' and c' rule: process_data_process_next.induct)
  case (1 w c b e)
  note rules = "1.prems"(3-14)
  note parsed = rules(1) and rejected = rules(2) and reading = rules(3)
    and dispatched = rules(4) and dispatch_failed = rules(5) and delivered = rules(6)
    and deliver_failed = rules(7) and parked = rules(8) and cleared = rules(9)
    and completed = rules(10) and complete_failed = rules(11)
  note run = "1.prems"(1)
  note P = "1.prems"(2)
  show ?case
  proof (cases "m_state c AND read_headers \<noteq> 0")
    case True
    obtain r nb c2 where p: "parse_headers w c b e = (r, nb, c2)"
      by (cases "parse_headers w c b e") auto
    note P2 = parsed [OF P p]
    show ?thesis
    proof (cases r)
      case TriTrue
      show ?thesis
      proof (cases "dispatch_request w (accept_request c2)")
        case (Value c3)
        have eq: "process_data w (enter_read_data c3) nb e = Inr c'"
          using run True p TriTrue Value by (simp add: process_data.simps)
        show ?thesis
          by (rule "1.IH"(1) [OF True p [symmetric] refl TriTrue Value])
             (fact eq, fact dispatched [OF P2 Value], (fact rules)+)
      next
        case (Caught c3)
        then show ?thesis
          using run True p TriTrue dispatch_failed [OF P2 Caught]
          by (simp add: process_data.simps)
      next
        case (Uncaught ex)
        then show ?thesis
          using run True p TriTrue by (simp add: process_data.simps)
      qed
    next
      case TriFalse
      then show ?thesis
        using run True p rejected [OF P2] by (auto simp: process_data.simps)
    next
      case Indeterminate
      then show ?thesis
        using run True p reading [OF P2] by (auto simp: process_data.simps)
    qed
  next
    case False
    note nh = False
    show ?thesis
    proof (cases "m_state c AND read_data \<noteq> 0")
      case False
      then show ?thesis
        using run nh P by (simp add: process_data.simps)
    next
      case True
      note rd = True
      show ?thesis
      proof (cases "deliver_body w c b e")
        case (Uncaught ex)
        then show ?thesis
          using run nh rd by (simp add: process_data.simps)
      next
        case (Caught c3)
        then show ?thesis
          using run nh rd deliver_failed [OF P Caught]
          by (simp add: process_data.simps)
      next
        case (Value r)
        obtain n c0 where r: "r = (n, c0)" by (cases r)
        note d = Value [unfolded r]
        let ?c1 = "count_processed c0 n"
        let ?c2 = "park (?c1\<lparr>m_state := m_state ?c1 AND NOT read_data\<rparr>) (b + unat n) e"
        note P1 = delivered [OF P d]
        have P2: "P ?c2"
          using parked [OF cleared [OF P1]] .
        show ?thesis
        proof (cases "data_from_body c b e \<noteq> n \<or> m_content_length ?c1 > 0")
          case True
          then show ?thesis
            using run nh rd d parked [OF P1, of "b + unat n" e] reading [OF P1]
            by (auto simp: process_data.simps Let_def split: if_splits)
        next
          case False
          show ?thesis
          proof (cases "body_complete w ?c2")
            case (Uncaught ex)
            then show ?thesis
              using run nh rd d False by (simp add: process_data.simps Let_def)
          next
            case (Caught c3)
            then show ?thesis
              using run nh rd d False complete_failed [OF P2 Caught]
              by (simp add: process_data.simps Let_def)
          next
            case (Value c4)
            note P4 = completed [OF P2 Value]
            show ?thesis
            proof (cases "m_state c4 AND request_processed \<noteq> 0")
              case True
              have eq: "process_next w c4 = Inr c'"
                using run nh rd d False Value True
                by (simp add: process_data.simps Let_def)
              have side: "\<not> data_from_body c b e \<noteq> n" "\<not> 0 < m_content_length ?c1"
                using False by auto
              show ?thesis
                by (rule "1.IH"(2) [OF nh rd d refl refl side Value True])
                   (fact eq, fact P4, (fact rules)+)
            next
              case nrp: False
              then show ?thesis
                using run nh rd d False Value P4
                by (simp add: process_data.simps Let_def)
            qed
          qed
        qed
      qed
    qed
  qed
next
  case (2 w c)
  let ?c1 = "reset_request w c"
  note rules = "2.prems"(3-14)
  note run = "2.prems"(1)
  note P1 = rules(12) [OF "2.prems"(2)]
  show ?case
  proof (cases "m_unprocessed_begin ?c1 \<noteq> m_unprocessed_end ?c1")
    case False
    then show ?thesis
      using run rules(3) [OF P1] by (auto simp: process_next.simps Let_def)
  next
    case True
    show ?thesis
    proof (cases "m_unprocessed_begin ?c1")
      case None
      then show ?thesis
        using run True P1 by (auto simp: process_next.simps Let_def)
    next
      case (Some bb)
      note sb = Some
      show ?thesis
      proof (cases "m_unprocessed_end ?c1")
        case None
        then show ?thesis
          using run True sb P1 by (auto simp: process_next.simps Let_def)
      next
        case (Some ee)
        have eq: "process_data w ?c1 bb ee = Inr c'"
          using run True sb Some by (simp add: process_next.simps Let_def)
        show ?thesis
          by (rule "2.IH" [OF refl True sb Some]) (fact eq, fact P1, (fact rules)+)
      qed
    qed
  qed
qed

text \<open>The same for the loop of \<open>write_finished\<close>.\<close>

lemma loop_invariant:
  assumes popped: "\<And>c q. P c \<Longrightarrow> P (c\<lparr>m_outgoing := q\<rparr>)"
    and invoked: "\<And>c cb c'. P c \<Longrightarrow> invoke w c cb 0 = Inr c' \<Longrightarrow> P c'"
    and extra: "\<And>c n. P c \<Longrightarrow> P (emit (ExtraWrittenBytes n) c)"
  shows "write_finished_loop w c n = Inr c' \<Longrightarrow> P c \<Longrightarrow> P c'"
  using assms
proof (induction w c n arbitrary: c' rule: write_finished_loop.induct)
  case (1 w c n)
  note rules = "1.prems"(3-5)
  note run = "1.prems"(1)
  note P = "1.prems"(2)
  show ?case
  proof (cases "n = 0")
    case True
    then show ?thesis
      using run P by (simp add: write_finished_loop.simps)
  next
    case False
    note nz = False
    show ?thesis
    proof (cases "m_outgoing c")
      case Nil
      then show ?thesis
        using run nz rules(3) [OF P, of n] by (simp add: write_finished_loop.simps)
    next
      case (Cons front rest)
      obtain rs left where cr: "consume_ranges (buffer front) n = (rs, left)"
        by (cases "consume_ranges (buffer front) n") auto
      show ?thesis
      proof (cases rs)
        case Nil
        note cr0 = cr [unfolded Nil]
        show ?thesis
        proof (cases "invoke w (c\<lparr>m_outgoing := rest\<rparr>) (handler front) 0")
          case (Inl ex)
          then show ?thesis
            using run nz Cons cr0 by (simp add: write_finished_loop.simps [of w c])
        next
          case (Inr c1)
          have eq: "write_finished_loop w c1 left = Inr c'"
            using run nz Cons cr0 Inr by (simp add: write_finished_loop.simps [of w c])
          note P1 = rules(2) [OF rules(1) [OF P] Inr]
          show ?thesis
            by (rule "1.IH"(1) [OF nz Cons cr0 [symmetric] refl Inr])
               (fact eq, fact P1, (fact rules)+)
        qed
      next
        case (Cons it its)
        note cr1 = cr [unfolded Cons]
        let ?c1 = "c\<lparr>m_outgoing := front\<lparr>buffer := it # its\<rparr> # rest\<rparr>"
        have eq: "write_finished_loop w ?c1 left = Inr c'"
          using run nz \<open>m_outgoing c = front # rest\<close> cr1
          by (simp add: write_finished_loop.simps [of w c])
        show ?thesis
          by (rule "1.IH"(2) [OF nz \<open>m_outgoing c = front # rest\<close> cr1 [symmetric] refl])
             (fact eq, fact rules(1) [OF P], (fact rules)+)
      qed
    qed
  qed
qed




text \<open>
  C4. The destructor never touches \<^verbatim>\<open>active_connections_counter\<close>: a connection
  destroyed while it holds a handler logs status 597 and calls \<^verbatim>\<open>on_close\<close>, and the
  counter that was incremented when the handler was created stays incremented. Below,
  a request creates a handler (counter 1) and the connection is destroyed before the
  handler calls \<^verbatim>\<open>close\<close>.
\<close>

theorem destructor_keeps_active_counter:
  "(case destructor w c of
      Inl ex \<Rightarrow> True
    | Inr c' \<Rightarrow> active_connections_counter c' = active_connections_counter c)
   \<and> (\<exists>c1 c2.
        handle_read demo_world (socket_received ''G'' demo_start) 0 1 = Inr c1
        \<and> m_handler c1 = Some [4] \<and> active_connections_counter c1 = 1
        \<and> destructor demo_world c1 = Inr c2
        \<and> active_connections_counter c2 = 1 \<and> connections_counter c2 = 0
        \<and> trace c2 =
            [AsyncReadSome, Initialize, OnHeaders (demo_request ''GET'' ''/x'' None True),
             OnClose 0,
             AccessLog \<lparr>log_method = ''GET'', log_url = ''/x'', log_local = ''local'',
               log_remote = ''remote'', log_status = 597, log_received = 1, log_sent = 0\<rparr>,
             OnClose 0])"
proof
  show "case destructor w c of
      Inl ex \<Rightarrow> True
    | Inr c' \<Rightarrow> active_connections_counter c' = active_connections_counter c"
    by (simp add: destructor_def Let_def call_on_close_def SAFE_CALL_cases caught_def
        SAFE_SEND_NONE_def print_access_log_def emit_def
        split: option.splits sum.splits)
next
  show "\<exists>c1 c2.
        handle_read demo_world (socket_received ''G'' demo_start) 0 1 = Inr c1
        \<and> m_handler c1 = Some [4] \<and> active_connections_counter c1 = 1
        \<and> destructor demo_world c1 = Inr c2
        \<and> active_connections_counter c2 = 1 \<and> connections_counter c2 = 0
        \<and> trace c2 =
            [AsyncReadSome, Initialize, OnHeaders (demo_request ''GET'' ''/x'' None True),
             OnClose 0,
             AccessLog \<lparr>log_method = ''GET'', log_url = ''/x'', log_local = ''local'',
               log_remote = ''remote'', log_status = 597, log_received = 1, log_sent = 0\<rparr>,
             OnClose 0]"
    by (simp add: demo_defs step_defs run_defs)
qed

lemma unat_data_from_body_le: "b \<le> e \<Longrightarrow> unat (data_from_body c b e) \<le> e - b"
proof -
  assume "b \<le> e"
  then have eq: "(of_nat e :: 64 word) - of_nat b = of_nat (e - b)"
    by simp
  have "unat (data_from_body c b e) \<le> unat (of_nat (e - b) :: 64 word)"
    unfolding data_from_body_def eq by (simp add: word_le_nat_alt [symmetric])
  also have "\<dots> \<le> e - b"
    by (simp add: unat_of_nat)
  finally show ?thesis .
qed

lemma min_minus_word:
  fixes n a v :: "64 word"
  assumes "n < min a v"
  shows "min (a - n) (v - n) = min a v - n"
  using assms by (simp add: min_def) unat_arith

text \<open>
  C5. In \<^verbatim>\<open>READ_DATA\<close>, when the handler returns from \<^verbatim>\<open>on_data\<close> having consumed
  fewer bytes than it was offered, \<open>process_data\<close> parks the rest between
  \<^verbatim>\<open>m_unprocessed_begin\<close> and \<^verbatim>\<open>m_unprocessed_end\<close> and returns without posting a read:
  the trace gains the \<^verbatim>\<open>on_data\<close> call and nothing else, and \<^verbatim>\<open>m_at_read\<close> is as it
  was. The cursors differ, so \<open>want_more_impl\<close> calls \<open>process_data\<close> on the parked
  range, where the handler is offered what it left of the bytes offered before. Had the
  cursors been equal, \<open>want_more_impl\<close> would have posted a read: the trace gains
  \<^verbatim>\<open>async_read_some\<close>, \<^verbatim>\<open>m_at_read\<close> is set and the cursors are null; the one case in
  which nothing is posted is a read already outstanding when \<open>process_data\<close> was
  entered, which \<^verbatim>\<open>handle_read\<close> rules out by clearing \<^verbatim>\<open>m_at_read\<close> first.
\<close>

theorem partial_consumption_parks_remainder:
  assumes rd: "m_state c AND read_headers = 0" "m_state c AND read_data \<noteq> 0"
    and h: "m_handler c = Some h"
    and ret: "on_data w h (range_bytes (m_buffer c) b (b + unat (data_from_body c b e)))
                = Inr (n, h')"
    and less: "n < data_from_body c b e"
  shows "\<exists>c'. process_data w c b e = Inr c'
           \<and> m_unprocessed_begin c' = Some (b + unat n)
           \<and> m_unprocessed_end c' = Some e
           \<and> b + unat n \<noteq> e
           \<and> (b \<le> e \<longrightarrow> b + unat n < e)
           \<and> trace c' =
               trace c @ [OnData (range_bytes (m_buffer c) b (b + unat (data_from_body c b e)))]
           \<and> m_at_read c' = m_at_read c
           \<and> m_state c' = m_state c
           \<and> m_buffer c' = m_buffer c
           \<and> m_handler c' = Some h'
           \<and> want_more_impl w c' = process_data w c' (b + unat n) e
           \<and> data_from_body c' (b + unat n) e = data_from_body c b e - n
           \<and> data_from_body c' (b + unat n) e \<noteq> 0
           \<and> (\<exists>d. want_more_impl w (c'\<lparr>m_unprocessed_begin := p, m_unprocessed_end := p\<rparr>)
                    = Inr d
                 \<and> trace d = trace c' @ (if m_at_read c then [] else [AsyncReadSome])
                 \<and> m_at_read d
                 \<and> (\<not> m_at_read c \<longrightarrow>
                      m_unprocessed_begin d = None \<and> m_unprocessed_end d = None))"
proof -
  let ?offered = "range_bytes (m_buffer c) b (b + unat (data_from_body c b e))"
  let ?c0 = "(emit (OnData ?offered) c)
               \<lparr>m_handler := Some h',
                 receipts := receipts (emit (OnData ?offered) c) @ [Acknowledged n]\<rparr>"
  let ?c' = "park (count_processed ?c0 n) (b + unat n) e"
  from less have nz: "data_from_body c b e \<noteq> 0" and ne: "data_from_body c b e \<noteq> n"
    by (auto simp: word_greater_zero_iff)
  have d: "deliver_body w c b e = Value (n, ?c0)"
    using h ret nz by (simp add: deliver_body_def Let_def SAFE_CALL_cases)
  have run: "process_data w c b e = Inr ?c'"
    using rd d ne by (simp add: process_data.simps)
  from less have un: "unat n < unat (data_from_body c b e)"
    by (simp add: word_less_nat_alt)
  have lt: "b + unat n < e" if "b \<le> e"
    using un unat_data_from_body_le [OF that, of c] by arith
  have neq: "b + unat n \<noteq> e"
    using lt by (cases "b \<le> e") auto
  have again: "want_more_impl w ?c' = process_data w ?c' (b + unat n) e"
    using neq by (simp add: want_more_impl_def park_def)
  have "data_from_body ?c' (b + unat n) e
      = min (m_content_length c - n) (of_nat e - of_nat b - n)"
    by (simp add: data_from_body_def park_def count_processed_def emit_def diff_diff_eq)
  also have "\<dots> = data_from_body c b e - n"
    using less unfolding data_from_body_def by (rule min_minus_word)
  finally have rest: "data_from_body ?c' (b + unat n) e = data_from_body c b e - n" .
  have rest_nz: "data_from_body ?c' (b + unat n) e \<noteq> 0"
    unfolding rest using less by unat_arith
  let ?e = "?c'\<lparr>m_unprocessed_begin := p, m_unprocessed_end := p\<rparr>"
  have post: "want_more_impl w ?e = Inr (async_read ?e)"
    by (simp add: want_more_impl_def)
  have posted: "trace (async_read ?e) = trace ?c' @ (if m_at_read c then [] else [AsyncReadSome])"
      "m_at_read (async_read ?e)"
      "\<not> m_at_read c \<longrightarrow> m_unprocessed_begin (async_read ?e) = None
          \<and> m_unprocessed_end (async_read ?e) = None"
    by (simp_all add: async_read_def park_def count_processed_def emit_def)
  have fields: "m_unprocessed_begin ?c' = Some (b + unat n)" "m_unprocessed_end ?c' = Some e"
      "trace ?c' = trace c @ [OnData ?offered]" "m_at_read ?c' = m_at_read c"
      "m_state ?c' = m_state c" "m_buffer ?c' = m_buffer c" "m_handler ?c' = Some h'"
    by (simp_all add: park_def count_processed_def emit_def)
  show ?thesis
    using run fields neq lt again rest rest_nz post posted by blast
qed

text \<open>
  The theorem at work: ten body bytes are offered, the handler takes four; six stay
  parked and no read is posted; with equal cursors \<open>want_more_impl\<close> posts the read.
\<close>

theorem partial_consumption_parks_remainder_witness:
  "\<exists>c' d. process_data demo_world demo_body_state 1 11 = Inr c'
     \<and> m_unprocessed_begin c' = Some 5 \<and> m_unprocessed_end c' = Some 11
     \<and> trace c' = [OnData ''0123456789'']
     \<and> \<not> m_at_read c'
     \<and> m_handler c' = Some []
     \<and> want_more_impl demo_world c' = process_data demo_world c' 5 11
     \<and> data_from_body c' 5 11 = 6
     \<and> want_more_impl demo_world (c'\<lparr>m_unprocessed_begin := None, m_unprocessed_end := None\<rparr>)
          = Inr d
     \<and> trace d = [OnData ''0123456789'', AsyncReadSome]
     \<and> m_at_read d"
proof -
  have dfb: "data_from_body demo_body_state 1 11 = 10"
    by (simp add: demo_body_state_def data_from_body_def new_connection_def)
  have 1: "m_state demo_body_state AND read_headers = 0"
    and 2: "m_state demo_body_state AND read_data \<noteq> 0"
    and 3: "m_handler demo_body_state = Some [4]"
    by (simp_all add: demo_body_state_def new_connection_def flag_defs)
  have 4: "on_data demo_world [4]
      (range_bytes (m_buffer demo_body_state) 1 (1 + unat (data_from_body demo_body_state 1 11)))
      = Inr (4, [])"
    unfolding dfb
    by (simp add: demo_body_state_def demo_world_def range_bytes_def new_connection_def)
  have 5: "(4 :: 64 word) < data_from_body demo_body_state 1 11"
    unfolding dfb by simp
  have 6: "m_at_read demo_body_state = False" "trace demo_body_state = []"
    "range_bytes (m_buffer demo_body_state) 1 (1 + unat (10 :: 64 word)) = ''0123456789''"
    by (simp_all add: demo_body_state_def new_connection_def range_bytes_def)
  from partial_consumption_parks_remainder [OF 1 2 3 4 5, of None]
  obtain c' d where c': "process_data demo_world demo_body_state 1 11 = Inr c'"
      "m_unprocessed_begin c' = Some (1 + unat (4 :: 64 word))" "m_unprocessed_end c' = Some 11"
      "trace c' = trace demo_body_state @
         [OnData (range_bytes (m_buffer demo_body_state) 1
            (1 + unat (data_from_body demo_body_state 1 11)))]"
      "m_at_read c' = m_at_read demo_body_state"
      "m_handler c' = Some []"
      "want_more_impl demo_world c' = process_data demo_world c' (1 + unat (4 :: 64 word)) 11"
      "data_from_body c' (1 + unat (4 :: 64 word)) 11 = data_from_body demo_body_state 1 11 - 4"
      "want_more_impl demo_world (c'\<lparr>m_unprocessed_begin := None, m_unprocessed_end := None\<rparr>)
          = Inr d"
      "trace d = trace c' @ (if m_at_read demo_body_state then [] else [AsyncReadSome])"
      "m_at_read d"
    by blast
  show ?thesis
    using c' unfolding dfb 6 by (intro exI [of _ c'] exI [of _ d]) simp
qed

text \<open>
  C6. With \<^verbatim>\<open>safe_mode\<close> set, an exception leaving \<^verbatim>\<open>on_headers\<close>, \<^verbatim>\<open>on_data\<close> or
  \<^verbatim>\<open>on_close\<close> is caught where the callback is called: the catch block logs the error
  under the prefix that names the call site, sets the access status to 598 and prints
  the access log; then the recovery chosen by the call site runs. \<open>SAFE_SEND_NONE\<close>
  does nothing more; \<open>SAFE_SEND_ERROR\<close> shuts the socket down, decrements the active
  counter, drops the handler and returns. The three call sites of \<open>process_data\<close> use
  the latter; those of \<open>handle_read\<close>, \<open>write_finished\<close> and the destructor use the
  former. With \<^verbatim>\<open>safe_mode\<close> unset the exception leaves the member function.

  The call sites, in the order of the statement: \<^verbatim>\<open>on_headers\<close> when a request has been
  dispatched; \<^verbatim>\<open>on_data\<close> when body bytes are offered; \<^verbatim>\<open>on_close\<close> in
  \<open>process_data\<close> when the step \<open>deliver_body\<close> has taken the last bytes of the body
  (or there were none); \<^verbatim>\<open>on_close\<close> in \<open>handle_read\<close> after a read error; \<^verbatim>\<open>on_close\<close>
  in \<open>write_finished\<close> after a write error, whatever the queue holds, once its
  callbacks have been called with the error (the handler is still attached unless one
  of them was the connection's own \<^verbatim>\<open>close_impl\<close>); \<^verbatim>\<open>on_close\<close> in the destructor.
\<close>

theorem handler_failures_under_safe_mode:
  "m_access_status (caught c p ex) = 598
   \<and> trace (caught c p ex) =
        trace c @ ErrorLog (uncaught_message p ex) #
          (if m_state c AND waiting_for_first_data \<noteq> 0 then []
           else [AccessLog ((access_entry c)\<lparr>log_status := 598\<rparr>)])
   \<and> take (length p) (uncaught_message p ex) = p
   \<and> SAFE_SEND_NONE c = c
   \<and> SAFE_SEND_ERROR c =
        c\<lparr>trace := trace c @ [Shutdown],
          active_connections_counter := active_connections_counter c - 1,
          m_handler := None\<rparr>
   \<and> (m_state c AND read_headers \<noteq> 0 \<and> fst (parse_headers w c b e) = TriTrue
        \<and> factory w (m_request (snd (snd (parse_headers w c b e)))) = Some h
        \<and> on_headers w h (m_request (snd (snd (parse_headers w c b e)))) = Inl ex
      \<longrightarrow> process_data w c b e =
           (if safe_mode c
            then Inr (SAFE_SEND_ERROR (caught
                   (attach_handler (accept_request (snd (snd (parse_headers w c b e)))) h)
                   ''connection::process_data -> on_headers'' ex))
            else Inl ex))
   \<and> (m_state c AND read_headers = 0 \<and> m_state c AND read_data \<noteq> 0
        \<and> m_handler c = Some h \<and> data_from_body c b e \<noteq> 0
        \<and> on_data w h (range_bytes (m_buffer c) b (b + unat (data_from_body c b e))) = Inl ex
      \<longrightarrow> process_data w c b e =
           (if safe_mode c
            then Inr (SAFE_SEND_ERROR (caught
                   (emit (OnData (range_bytes (m_buffer c) b (b + unat (data_from_body c b e)))) c)
                   ''connection::process_data -> on_data'' ex))
            else Inl ex))
   \<and> (m_state c AND read_headers = 0 \<and> m_state c AND read_data \<noteq> 0
        \<and> deliver_body w c b e = Value (data_from_body c b e, c0)
        \<and> m_content_length c = data_from_body c b e
        \<and> m_handler c0 = Some h \<and> on_close w h 0 = Inl ex
      \<longrightarrow> process_data w c b e =
           (if safe_mode c
            then Inr (SAFE_SEND_ERROR (caught
                   (emit (OnClose 0)
                      (park ((count_processed c0 (data_from_body c b e))
                               \<lparr>m_state := m_state c AND NOT read_data\<rparr>)
                         (b + unat (data_from_body c b e)) e))
                   ''connection::process_data -> on_close'' ex))
            else Inl ex))
   \<and> (err \<noteq> 0 \<and> m_handler c = Some h \<and> on_close w h err = Inl ex
      \<longrightarrow> handle_read w c err n =
           (if safe_mode c
            then Inr ((SAFE_SEND_NONE (caught
                   (emit (OnClose err)
                      (print_access_log (c\<lparr>m_at_read := False, m_access_status := 499\<rparr>)))
                   ''connection::handle_read -> on_close'' ex))
                   \<lparr>active_connections_counter := active_connections_counter c - 1,
                    m_handler := None\<rparr>)
            else Inl ex))
   \<and> (err \<noteq> 0 \<and> CloseImpl \<notin> handler ` set (m_outgoing c)
        \<and> m_handler c = Some h \<and> on_close w h err = Inl ex
      \<longrightarrow> write_finished w c err n =
           (if safe_mode c
            then close_impl w (SAFE_SEND_NONE (caught
                   (emit (OnClose err)
                      (c\<lparr>m_access_sent := m_access_sent c + of_nat n, m_outgoing := [],
                         trace := trace c @ completions c (m_outgoing c) err,
                         m_access_status := 499\<rparr>))
                   ''connection::write_finished -> on_close'' ex)) err
            else Inl ex))
   \<and> (m_handler c = Some h \<and> on_close w h 0 = Inl ex
      \<longrightarrow> destructor w c =
           (if safe_mode c
            then Inr (SAFE_SEND_NONE (caught
                   (emit (OnClose 0)
                      (print_access_log
                         ((if m_server c
                           then c\<lparr>connections_counter := connections_counter c - 1\<rparr>
                           else c)\<lparr>m_access_status := 597\<rparr>)))
                   ''connection::~connection -> on_close'' ex))
            else Inl ex))"
proof -
  have site1: "process_data w c b e =
           (if safe_mode c
            then Inr (SAFE_SEND_ERROR (caught
                   (attach_handler (accept_request (snd (snd (parse_headers w c b e)))) h)
                   ''connection::process_data -> on_headers'' ex))
            else Inl ex)"
    if hs: "m_state c AND read_headers \<noteq> 0" "fst (parse_headers w c b e) = TriTrue"
      "factory w (m_request (snd (snd (parse_headers w c b e)))) = Some h"
      "on_headers w h (m_request (snd (snd (parse_headers w c b e)))) = Inl ex"
  proof -
    obtain nb c2 where p: "parse_headers w c b e = (TriTrue, nb, c2)"
      using hs(2) by (cases "parse_headers w c b e") auto
    have sm: "safe_mode c2 = safe_mode c"
      using p by (auto simp: parse_headers_def Let_def split: if_splits)
    have "dispatch_request w (accept_request c2) =
        (if safe_mode c then Caught (SAFE_SEND_ERROR (caught
                   (attach_handler (accept_request c2) h)
                   ''connection::process_data -> on_headers'' ex)) else Uncaught ex)"
      using hs(3,4) sm p
      by (simp add: dispatch_request_def Let_def SAFE_CALL_cases accept_request_def
          attach_handler_def emit_def)
    then show ?thesis
      using hs(1) p by (simp add: process_data.simps)
  qed
  have site2: "process_data w c b e =
           (if safe_mode c
            then Inr (SAFE_SEND_ERROR (caught
                   (emit (OnData (range_bytes (m_buffer c) b (b + unat (data_from_body c b e)))) c)
                   ''connection::process_data -> on_data'' ex))
            else Inl ex)"
    if "m_state c AND read_headers = 0" "m_state c AND read_data \<noteq> 0"
      "m_handler c = Some h" "data_from_body c b e \<noteq> 0"
      "on_data w h (range_bytes (m_buffer c) b (b + unat (data_from_body c b e))) = Inl ex"
  proof -
    have "deliver_body w c b e =
        (if safe_mode c then Caught (SAFE_SEND_ERROR (caught
                   (emit (OnData (range_bytes (m_buffer c) b (b + unat (data_from_body c b e)))) c)
                   ''connection::process_data -> on_data'' ex)) else Uncaught ex)"
      using that(3,4,5) by (simp add: deliver_body_def Let_def SAFE_CALL_cases emit_def)
    then show ?thesis
      using that(1,2) by (simp add: process_data.simps)
  qed
  have site3: "process_data w c b e =
           (if safe_mode c
            then Inr (SAFE_SEND_ERROR (caught
                   (emit (OnClose 0)
                      (park ((count_processed c0 (data_from_body c b e))
                               \<lparr>m_state := m_state c AND NOT read_data\<rparr>)
                         (b + unat (data_from_body c b e)) e))
                   ''connection::process_data -> on_close'' ex))
            else Inl ex)"
    if hs: "m_state c AND read_headers = 0" "m_state c AND read_data \<noteq> 0"
      "deliver_body w c b e = Value (data_from_body c b e, c0)"
      "m_content_length c = data_from_body c b e"
      "m_handler c0 = Some h" "on_close w h 0 = Inl ex"
  proof -
    let ?n = "data_from_body c b e"
    let ?c2 = "park ((count_processed c0 ?n)\<lparr>m_state := m_state c AND NOT read_data\<rparr>)
                 (b + unat ?n) e"
    have same: "m_content_length c0 = m_content_length c" "m_state c0 = m_state c"
        "safe_mode c0 = safe_mode c"
      using hs(3)
      by (auto simp: deliver_body_def Let_def SAFE_CALL_cases emit_def
          split: option.splits sum.splits if_splits)
    have left: "m_content_length (count_processed c0 ?n) = 0"
      using hs(4) same by (simp add: count_processed_def)
    have "body_complete w ?c2 =
        (if safe_mode c then Caught (SAFE_SEND_ERROR (caught (emit (OnClose 0) ?c2)
                   ''connection::process_data -> on_close'' ex)) else Uncaught ex)"
      using hs(5,6) same
      by (simp add: body_complete_def call_on_close_def Let_def SAFE_CALL_cases emit_def
          park_def count_processed_def)
    then show ?thesis
      using hs(1,2,3) left same by (simp add: process_data.simps Let_def)
  qed
  have site4: "handle_read w c err n =
           (if safe_mode c
            then Inr ((SAFE_SEND_NONE (caught
                   (emit (OnClose err)
                      (print_access_log (c\<lparr>m_at_read := False, m_access_status := 499\<rparr>)))
                   ''connection::handle_read -> on_close'' ex))
                   \<lparr>active_connections_counter := active_connections_counter c - 1,
                    m_handler := None\<rparr>)
            else Inl ex)"
    if "err \<noteq> 0" "m_handler c = Some h" "on_close w h err = Inl ex"
    using that
    by (simp add: handle_read_def Let_def call_on_close_def SAFE_CALL_cases
        print_access_log_def emit_def SAFE_SEND_NONE_def caught_def)
  have site5: "write_finished w c err n =
           (if safe_mode c
            then close_impl w (SAFE_SEND_NONE (caught
                   (emit (OnClose err)
                      (c\<lparr>m_access_sent := m_access_sent c + of_nat n, m_outgoing := [],
                         trace := trace c @ completions c (m_outgoing c) err,
                         m_access_status := 499\<rparr>))
                   ''connection::write_finished -> on_close'' ex)) err
            else Inl ex)"
    if hs: "err \<noteq> 0" "CloseImpl \<notin> handler ` set (m_outgoing c)"
      "m_handler c = Some h" "on_close w h err = Inl ex"
  proof -
    let ?c0 = "c\<lparr>m_access_sent := m_access_sent c + of_nat n\<rparr>"
    have cc: "completions ?c0 (m_outgoing c) err = completions c (m_outgoing c) err"
      using hs(2) by (rule completions_user_callbacks)
    from flush_outgoing_user_callbacks [OF hs(2), of w "?c0\<lparr>m_outgoing := []\<rparr>" err]
    have "flush_outgoing w (?c0\<lparr>m_outgoing := []\<rparr>) (m_outgoing ?c0) err =
        Inr (?c0\<lparr>m_outgoing := [], trace := trace c @ completions c (m_outgoing c) err\<rparr>)"
      using cc by simp
    then show ?thesis
      using hs(1,3,4)
      by (simp add: write_finished_def Let_def call_on_close_def SAFE_CALL_cases emit_def)
  qed
  have site6: "destructor w c =
           (if safe_mode c
            then Inr (SAFE_SEND_NONE (caught
                   (emit (OnClose 0)
                      (print_access_log
                         ((if m_server c
                           then c\<lparr>connections_counter := connections_counter c - 1\<rparr>
                           else c)\<lparr>m_access_status := 597\<rparr>)))
                   ''connection::~connection -> on_close'' ex))
            else Inl ex)"
    if "m_handler c = Some h" "on_close w h 0 = Inl ex"
    using that
    by (simp add: destructor_def Let_def call_on_close_def SAFE_CALL_cases emit_def
        print_access_log_def)
  have msg: "take (length p) (uncaught_message p ex) = p"
    by (cases ex) (simp_all add: uncaught_message_def)
  have log: "trace (caught c p ex) =
        trace c @ ErrorLog (uncaught_message p ex) #
          (if m_state c AND waiting_for_first_data \<noteq> 0 then []
           else [AccessLog ((access_entry c)\<lparr>log_status := 598\<rparr>)])"
    by (simp add: caught_def print_access_log_def access_entry_def emit_def)
  have st: "m_access_status (caught c p ex) = 598"
    by (simp add: caught_def print_access_log_def emit_def)
  show ?thesis
    using site1 site2 site3 site4 site5 site6 msg log st
    by (simp add: SAFE_SEND_NONE_def SAFE_SEND_ERROR_def emit_def)
qed

text \<open>
  The theorem at work, under \<^verbatim>\<open>safe_mode\<close> and without it: a handler that throws from
  \<^verbatim>\<open>on_headers\<close>; one that throws from \<^verbatim>\<open>on_data\<close>; one that takes the ten bytes of
  the body and throws from the \<^verbatim>\<open>on_close\<close> that follows; a read error, a write error
  with two items queued and a destruction, each with a handler that throws from
  \<^verbatim>\<open>on_close\<close>.
\<close>

theorem handler_failures_under_safe_mode_witness:
  "(\<exists>c'. process_data throwing_world (demo_head_state True) 0 1 = Inr c'
       \<and> m_access_status c' = 598 \<and> m_handler c' = None
       \<and> active_connections_counter c' = 0
       \<and> trace c' =
           [Initialize, OnHeaders (demo_request ''GET'' ''/x'' None True),
            ErrorLog ''connection::process_data -> on_headers: uncaught exception: boom'',
            AccessLog \<lparr>log_method = ''GET'', log_url = ''/x'', log_local = ''local'',
              log_remote = ''remote'', log_status = 598, log_received = 1, log_sent = 0\<rparr>,
            Shutdown])
   \<and> process_data throwing_world (demo_head_state False) 0 1 = Inl (StdException ''boom'')
   \<and> (\<exists>c'. process_data throwing_world (demo_body_state\<lparr>safe_mode := True\<rparr>) 1 11 = Inr c'
       \<and> m_access_status c' = 598 \<and> m_handler c' = None
       \<and> trace c' =
           [OnData ''0123456789'',
            ErrorLog ''connection::process_data -> on_data: uncaught exception: unknown'',
            AccessLog \<lparr>log_method = ''-'', log_url = ''-'', log_local = [], log_remote = [],
              log_status = 598, log_received = 0, log_sent = 0\<rparr>,
            Shutdown])
   \<and> process_data throwing_world demo_body_state 1 11 = Inl UnknownException
   \<and> (\<exists>c'. process_data late_world
              (demo_body_state\<lparr>safe_mode := True, m_handler := Some []\<rparr>) 1 11 = Inr c'
       \<and> m_access_status c' = 598 \<and> m_handler c' = None
       \<and> trace c' =
           [OnData ''0123456789'', OnClose 0,
            ErrorLog ''connection::process_data -> on_close: uncaught exception: late'',
            AccessLog \<lparr>log_method = ''-'', log_url = ''-'', log_local = [], log_remote = [],
              log_status = 598, log_received = 10, log_sent = 0\<rparr>,
            Shutdown])
   \<and> process_data late_world (demo_body_state\<lparr>m_handler := Some []\<rparr>) 1 11
        = Inl (StdException ''late'')
   \<and> (\<exists>c'. handle_read throwing_world
              (demo_body_state\<lparr>safe_mode := True, m_at_read := True\<rparr>) 104 0 = Inr c'
       \<and> m_access_status c' = 598 \<and> m_handler c' = None \<and> Shutdown \<notin> set (trace c')
       \<and> ErrorLog ''connection::handle_read -> on_close: uncaught exception: late''
            \<in> set (trace c'))
   \<and> handle_read throwing_world (demo_body_state\<lparr>m_at_read := True\<rparr>) 104 0
        = Inl (StdException ''late'')
   \<and> (\<exists>c'. write_finished throwing_world (demo_reply_state\<lparr>safe_mode := True\<rparr>) 32 3
              = Inr c'
       \<and> m_handler c' = None
       \<and> trace c' =
            [Completion 1 32, OnClose 32,
             ErrorLog ''connection::write_finished -> on_close: uncaught exception: late'',
             AccessLog \<lparr>log_method = ''-'', log_url = ''-'', log_local = [], log_remote = [],
               log_status = 598, log_received = 0, log_sent = 3\<rparr>,
             AccessLog \<lparr>log_method = ''-'', log_url = ''-'', log_local = [], log_remote = [],
               log_status = 599, log_received = 0, log_sent = 3\<rparr>,
             Shutdown])
   \<and> write_finished throwing_world demo_reply_state 32 3 = Inl (StdException ''late'')
   \<and> (\<exists>c'. destructor throwing_world (demo_body_state\<lparr>safe_mode := True\<rparr>) = Inr c'
       \<and> m_access_status c' = 598 \<and> Shutdown \<notin> set (trace c'))
   \<and> destructor throwing_world demo_body_state = Inl (StdException ''late'')"
proof -
  let ?w = throwing_world
  note t = handler_failures_under_safe_mode
  have dfb: "data_from_body (demo_body_state\<lparr>safe_mode := s\<rparr>) 1 11 = 10"
      "data_from_body (demo_body_state\<lparr>safe_mode := s, m_handler := Some []\<rparr>) 1 11 = 10" for s
    by (simp_all add: demo_defs data_from_body_def)
  have r1: "process_data ?w (demo_head_state s) 0 1 =
      (if s then Inr (SAFE_SEND_ERROR (caught
           (attach_handler (accept_request (snd (snd (parse_headers ?w (demo_head_state s) 0 1)))) [4])
           ''connection::process_data -> on_headers'' (StdException ''boom'')))
       else Inl (StdException ''boom''))" for s
    using t [where c = "demo_head_state s" and w = ?w and b = 0 and e = 1 and h = "[4]"
        and ex = "StdException ''boom''"]
    by (simp add: demo_defs step_defs)
  have r2: "process_data ?w (demo_body_state\<lparr>safe_mode := s\<rparr>) 1 11 =
      (if s then Inr (SAFE_SEND_ERROR (caught
           (emit (OnData ''0123456789'') (demo_body_state\<lparr>safe_mode := s\<rparr>))
           ''connection::process_data -> on_data'' UnknownException))
       else Inl UnknownException)" for s
    using t [where c = "demo_body_state\<lparr>safe_mode := s\<rparr>" and w = ?w and b = 1 and e = 11
        and h = "[4]" and ex = UnknownException]
    unfolding dfb
    by (simp add: demo_defs flag_defs range_bytes_def)
  have d3: "deliver_body late_world (demo_body_state\<lparr>safe_mode := s, m_handler := Some []\<rparr>) 1 11
      = Value (10, (emit (OnData ''0123456789'')
                      (demo_body_state\<lparr>safe_mode := s, m_handler := Some []\<rparr>))
                     \<lparr>m_handler := Some [], receipts := [Acknowledged 10]\<rparr>)" for s
    by (simp add: demo_defs step_defs)
  have r3: "process_data late_world (demo_body_state\<lparr>safe_mode := s, m_handler := Some []\<rparr>) 1 11 =
      (if s then Inr (SAFE_SEND_ERROR (caught
           (emit (OnClose 0)
              (park ((count_processed
                       ((emit (OnData ''0123456789'')
                           (demo_body_state\<lparr>safe_mode := s, m_handler := Some []\<rparr>))
                          \<lparr>m_handler := Some [], receipts := [Acknowledged 10]\<rparr>) 10)
                      \<lparr>m_state := read_data AND NOT read_data\<rparr>)
                 (1 + unat (10 :: 64 word)) 11))
           ''connection::process_data -> on_close'' (StdException ''late'')))
       else Inl (StdException ''late''))" for s
    using t [where c = "demo_body_state\<lparr>safe_mode := s, m_handler := Some []\<rparr>"
        and w = late_world and b = 1 and e = 11
        and ?c0.0 = "(emit (OnData ''0123456789'')
                      (demo_body_state\<lparr>safe_mode := s, m_handler := Some []\<rparr>))
                     \<lparr>m_handler := Some [], receipts := [Acknowledged 10]\<rparr>"
        and h = "[]" and ex = "StdException ''late''"] d3 [of s]
    unfolding dfb
    by (simp add: demo_defs flag_defs emit_def)
  have r4: "handle_read ?w (demo_body_state\<lparr>safe_mode := s, m_at_read := True\<rparr>) 104 0 =
      (if s then Inr ((SAFE_SEND_NONE (caught
                   (emit (OnClose 104)
                      (print_access_log (demo_body_state\<lparr>safe_mode := s, m_at_read := False,
                         m_access_status := 499\<rparr>)))
                   ''connection::handle_read -> on_close'' (StdException ''late'')))
                   \<lparr>active_connections_counter := active_connections_counter demo_body_state - 1,
                    m_handler := None\<rparr>)
       else Inl (StdException ''late''))" for s
    using t [where c = "demo_body_state\<lparr>safe_mode := s, m_at_read := True\<rparr>" and w = ?w
        and err = 104 and n = 0 and h = "[4]" and ex = "StdException ''late''"]
    by (simp add: demo_body_state_def new_connection_def throwing_world_def demo_world_def)
  have r5: "write_finished ?w (demo_reply_state\<lparr>safe_mode := s\<rparr>) 32 3 =
      (if s then close_impl ?w (SAFE_SEND_NONE (caught
                   (emit (OnClose 32)
                      (demo_reply_state\<lparr>safe_mode := s,
                         m_access_sent := 3, m_outgoing := [], trace := [Completion 1 32],
                         m_access_status := 499\<rparr>))
                   ''connection::write_finished -> on_close'' (StdException ''late''))) 32
       else Inl (StdException ''late''))" for s
    using t [where c = "demo_reply_state\<lparr>safe_mode := s\<rparr>" and w = ?w and err = 32 and n = 3
        and h = "[]" and ex = "StdException ''late''"]
    by (simp add: demo_reply_state_def demo_queue_state_def demo_item_def new_connection_def
        throwing_world_def demo_world_def)
  have r6: "destructor ?w (demo_body_state\<lparr>safe_mode := s\<rparr>) =
      (if s then Inr (SAFE_SEND_NONE (caught
                   (emit (OnClose 0)
                      (print_access_log (demo_body_state\<lparr>safe_mode := s,
                         m_access_status := 597\<rparr>)))
                   ''connection::~connection -> on_close'' (StdException ''late'')))
       else Inl (StdException ''late''))" for s
    using t [where c = "demo_body_state\<lparr>safe_mode := s\<rparr>" and w = ?w
        and h = "[4]" and ex = "StdException ''late''"]
    by (simp add: demo_body_state_def new_connection_def throwing_world_def demo_world_def)
  have same: "demo_body_state\<lparr>safe_mode := False\<rparr> = demo_body_state"
      "demo_body_state\<lparr>safe_mode := False, m_handler := Some []\<rparr>
         = demo_body_state\<lparr>m_handler := Some []\<rparr>"
      "demo_body_state\<lparr>safe_mode := False, m_at_read := True\<rparr>
         = demo_body_state\<lparr>m_at_read := True\<rparr>"
      "demo_reply_state\<lparr>safe_mode := False\<rparr> = demo_reply_state"
    by (simp_all add: demo_defs)
  show ?thesis
    using r1 [of True] r1 [of False] r2 [of True] r2 [of False] r3 [of True] r3 [of False]
      r4 [of True] r4 [of False] r5 [of True] r5 [of False] r6 [of True] r6 [of False]
    unfolding same
    by (simp add: demo_defs step_defs close_impl_def)
qed

lemma bytes_append:
  "header_bytes (xs @ ys) = header_bytes xs + header_bytes ys"
  "acknowledged_bytes (xs @ ys) = acknowledged_bytes xs + acknowledged_bytes ys"
  "unattended_bytes (xs @ ys) = unattended_bytes xs + unattended_bytes ys"
proof -
  show "header_bytes (xs @ ys) = header_bytes xs + header_bytes ys"
    by (induction xs rule: header_bytes.induct) (simp_all add: ac_simps)
  show "acknowledged_bytes (xs @ ys) = acknowledged_bytes xs + acknowledged_bytes ys"
    by (induction xs rule: acknowledged_bytes.induct) (simp_all add: ac_simps)
  show "unattended_bytes (xs @ ys) = unattended_bytes xs + unattended_bytes ys"
    by (induction xs rule: unattended_bytes.induct) (simp_all add: ac_simps)
qed

lemma receipts_total_snoc [simp]:
  "receipts_total (rs @ [Parsed k]) = receipts_total rs + of_nat k"
  "receipts_total (rs @ [Acknowledged n]) = receipts_total rs + n"
  "receipts_total (rs @ [Unattended n]) = receipts_total rs + n"
  by (simp_all add: receipts_total_def bytes_append ac_simps)

lemma receipts_total_Nil [simp]: "receipts_total [] = 0"
  by (simp add: receipts_total_def)

lemma access_lines_append [simp]:
  "access_lines (xs @ ys) = access_lines xs @ access_lines ys"
  by (induction xs rule: access_lines.induct) simp_all

lemma accounted_emit [simp]:
  "\<not> is_line a \<Longrightarrow> accounted (emit a c) = accounted c"
  by (cases a) (simp_all add: accounted_def emit_def is_line_def)

lemma accounted_print_access_log:
  "accounted c \<Longrightarrow> accounted (print_access_log c)"
  by (simp add: accounted_def print_access_log_def emit_def access_entry_def)

lemma accounted_frame [simp]:
  "accounted (c\<lparr>m_state := s\<rparr>) = accounted c"
  "accounted (c\<lparr>m_at_read := ar\<rparr>) = accounted c"
  "accounted (c\<lparr>m_buffer := buf\<rparr>) = accounted c"
  "accounted (c\<lparr>m_handler := hv\<rparr>) = accounted c"
  "accounted (c\<lparr>m_access_status := st\<rparr>) = accounted c"
  "accounted (c\<lparr>m_access_sent := sn\<rparr>) = accounted c"
  "accounted (c\<lparr>m_outgoing := q\<rparr>) = accounted c"
  "accounted (c\<lparr>m_sending := sd\<rparr>) = accounted c"
  "accounted (c\<lparr>active_connections_counter := k\<rparr>) = accounted c"
  "accounted (c\<lparr>connections_counter := k\<rparr>) = accounted c"
  "accounted (c\<lparr>m_unprocessed_begin := ub\<rparr>) = accounted c"
  "accounted (c\<lparr>m_unprocessed_end := ue\<rparr>) = accounted c"
  "accounted (c\<lparr>m_keep_alive := ka\<rparr>) = accounted c"
  "accounted (c\<lparr>m_content_length := cl\<rparr>) = accounted c"
  "accounted (c\<lparr>m_access_method := am\<rparr>) = accounted c"
  "accounted (c\<lparr>m_access_url := au\<rparr>) = accounted c"
  by (simp_all add: accounted_def)

lemma is_line_simps [simp]:
  "is_line (AccessLog entry)" "\<not> is_line (ErrorLog msg)" "\<not> is_line (ExtraWrittenBytes n)"
  "\<not> is_line Shutdown" "\<not> is_line AsyncReadSome" "\<not> is_line (AsyncWriteSome bs)"
  "\<not> is_line Initialize" "\<not> is_line (OnHeaders req)" "\<not> is_line (OnData d)"
  "\<not> is_line (OnClose err)" "\<not> is_line (Completion k err)"
  by (simp_all add: is_line_def)

lemma accounted_async_read [simp]: "accounted (async_read c) = accounted c"
  by (simp add: async_read_def)

lemma accounted_send_impl [simp]: "accounted (send_impl c info) = accounted c"
  by (simp add: send_impl_def send_nolock_def Let_def)

lemma accounted_send [simp]:
  "accounted (send_headers w c rep content cb) = accounted c"
  "accounted (send_data c buf cb) = accounted c"
  "accounted (send_error w c t) = accounted c"
  by (simp_all add: send_headers_def send_data_def send_error_def Let_def)

lemma accounted_caught: "accounted c \<Longrightarrow> accounted (caught c p ex)"
  by (simp add: caught_def accounted_print_access_log)

lemma accounted_SAFE_SEND_ERROR [simp]: "accounted (SAFE_SEND_ERROR c) = accounted c"
proof -
  have "accounted (SAFE_SEND_ERROR c) = accounted (emit Shutdown c)"
    unfolding SAFE_SEND_ERROR_def by simp
  then show ?thesis by simp
qed

lemma accounted_parse_headers:
  "accounted c \<Longrightarrow> parse_headers w c b e = (r, nb, c2) \<Longrightarrow> accounted c2"
  by (auto simp: parse_headers_def Let_def accounted_def split: if_splits)

lemma accounted_dispatch_request:
  "accounted c \<Longrightarrow> dispatch_request w c = Value c' \<Longrightarrow> accounted c'"
  "accounted c \<Longrightarrow> dispatch_request w c = Caught c' \<Longrightarrow> accounted c'"
  by (auto simp: dispatch_request_def attach_handler_def Let_def SAFE_CALL_cases
      accounted_caught split: option.splits sum.splits if_splits)

lemma accounted_deliver_body:
  "accounted c \<Longrightarrow> deliver_body w c b e = Value (n, c0) \<Longrightarrow> accounted (count_processed c0 n)"
  "accounted c \<Longrightarrow> deliver_body w c b e = Caught c' \<Longrightarrow> accounted c'"
proof -
  assume a: "accounted c"
  {
    assume d: "deliver_body w c b e = Value (n, c0)"
    show "accounted (count_processed c0 n)"
    proof (cases "m_handler c")
      case None
      with a d show ?thesis
        by (auto simp: deliver_body_def count_processed_def accounted_def)
    next
      case (Some h)
      show ?thesis
      proof (cases "data_from_body c b e = 0")
        case True
        with a d Some show ?thesis
          by (auto simp: deliver_body_def count_processed_def accounted_def)
      next
        case False
        with a d Some show ?thesis
          by (auto simp: deliver_body_def count_processed_def accounted_def Let_def
              SAFE_CALL_cases emit_def split: sum.splits if_splits)
      qed
    qed
  }
  {
    assume d: "deliver_body w c b e = Caught c'"
    with a show "accounted c'"
      by (auto simp: deliver_body_def Let_def SAFE_CALL_cases accounted_caught
          split: option.splits sum.splits if_splits)
  }
qed

lemma accounted_call_on_close:
  "accounted c \<Longrightarrow> call_on_close w c h err p SAFE_SEND_ERROR = Value c' \<Longrightarrow> accounted c'"
  "accounted c \<Longrightarrow> call_on_close w c h err p SAFE_SEND_ERROR = Caught c' \<Longrightarrow> accounted c'"
  "accounted c \<Longrightarrow> call_on_close w c h err p SAFE_SEND_NONE = Value c' \<Longrightarrow> accounted c'"
  "accounted c \<Longrightarrow> call_on_close w c h err p SAFE_SEND_NONE = Caught c' \<Longrightarrow> accounted c'"
  by (auto simp: call_on_close_def Let_def SAFE_CALL_cases SAFE_SEND_NONE_def accounted_caught
      split: sum.splits if_splits)

lemma accounted_body_complete:
  assumes "accounted c"
  shows "body_complete w c = Value c' \<Longrightarrow> accounted c'"
    and "body_complete w c = Caught c' \<Longrightarrow> accounted c'"
proof -
  show "accounted c'" if "body_complete w c = Value c'"
  proof (cases "m_handler c")
    case None
    with that assms show ?thesis
      by (simp add: body_complete_def)
  next
    case (Some h)
    with that have "call_on_close w c h 0 ''connection::process_data -> on_close''
        SAFE_SEND_ERROR = Value c'"
      by (simp add: body_complete_def)
    with assms show ?thesis
      by (rule accounted_call_on_close(1))
  qed
  show "accounted c'" if "body_complete w c = Caught c'"
  proof (cases "m_handler c")
    case None
    with that show ?thesis
      by (simp add: body_complete_def)
  next
    case (Some h)
    with that have "call_on_close w c h 0 ''connection::process_data -> on_close''
        SAFE_SEND_ERROR = Caught c'"
      by (simp add: body_complete_def)
    with assms show ?thesis
      by (rule accounted_call_on_close(2))
  qed
qed

lemma accounted_reset_request:
  assumes "accounted c"
  shows "accounted (reset_request w c)"
proof -
  from accounted_print_access_log [OF assms]
  have "map log_received (access_lines (trace (print_access_log c)))
      = map receipts_total (reported (print_access_log c))"
    unfolding accounted_def by blast
  then show ?thesis
    unfolding reset_request_def accounted_def by simp
qed

lemma accounted_blocks [simp]:
  "accounted (reject_request c) = accounted c"
  "accounted (accept_request c) = accounted c"
  "accounted (enter_read_data c) = accounted c"
  "accounted (park c b e) = accounted c"
  by (simp_all add: reject_request_def accept_request_def enter_read_data_def park_def)

lemma accounted_process:
  assumes "accounted c"
  shows "process_data w c b e = Inr c' \<Longrightarrow> accounted c'"
    and "process_next w c = Inr c' \<Longrightarrow> accounted c'"
proof -
  have 1: "accounted c \<Longrightarrow> parse_headers w c b e = (r, nb, c2) \<Longrightarrow> accounted c2"
    for c b e r nb c2 by (rule accounted_parse_headers)
  have 2: "accounted c \<Longrightarrow> accounted (send_error w (reject_request c) bad_request)" for c
    by simp
  have 3: "accounted c \<Longrightarrow> accounted (async_read c)" for c
    by simp
  have 4: "accounted c \<Longrightarrow> dispatch_request w (accept_request c) = Value c'
      \<Longrightarrow> accounted (enter_read_data c')" for c c'
    using accounted_dispatch_request(1) [of "accept_request c" w c'] by simp
  have 5: "accounted c \<Longrightarrow> dispatch_request w (accept_request c) = Caught c'
      \<Longrightarrow> accounted c'" for c c'
    using accounted_dispatch_request(2) [of "accept_request c" w c'] by simp
  have 6: "accounted c \<Longrightarrow> deliver_body w c b e = Value (n, c0)
      \<Longrightarrow> accounted (count_processed c0 n)" for c b e n c0
    by (rule accounted_deliver_body)
  have 7: "accounted c \<Longrightarrow> deliver_body w c b e = Caught c' \<Longrightarrow> accounted c'" for c b e c'
    by (rule accounted_deliver_body)
  have 8: "accounted c \<Longrightarrow> accounted (park c b e)" for c b e
    by simp
  have 9: "accounted c \<Longrightarrow> accounted (c\<lparr>m_state := m_state c AND NOT read_data\<rparr>)" for c
    by simp
  have 10: "accounted c \<Longrightarrow> body_complete w c = Value c' \<Longrightarrow> accounted c'" for c c'
    by (rule accounted_body_complete)
  have 11: "accounted c \<Longrightarrow> body_complete w c = Caught c' \<Longrightarrow> accounted c'" for c c'
    by (rule accounted_body_complete)
  have 12: "accounted c \<Longrightarrow> accounted (reset_request w c)" for c
    by (rule accounted_reset_request)
  show "accounted c'" if "process_data w c b e = Inr c'"
    by (rule process_invariant(1) [where P = accounted and w = w])
       (fact 1 2 3 4 5 6 7 8 9 10 11 12 assms that)+
  show "accounted c'" if "process_next w c = Inr c'"
    by (rule process_invariant(2) [where P = accounted and w = w])
       (fact 1 2 3 4 5 6 7 8 9 10 11 12 assms that)+
qed

lemma accounted_close_impl:
  assumes "accounted c" "close_impl w c err = Inr c'"
  shows "accounted c'"
proof -
  let ?c1 = "(if m_handler c \<noteq> None
              then c\<lparr>active_connections_counter := active_connections_counter c - 1\<rparr>
              else c)\<lparr>m_handler := None\<rparr>"
  have a1: "accounted ?c1"
    using assms(1) by simp
  show ?thesis
  proof (cases "err \<noteq> 0")
    case True
    let ?c2 = "if m_access_status ?c1 \<noteq> 499 then ?c1\<lparr>m_access_status := 599\<rparr> else ?c1"
    have "accounted ?c2"
      using a1 by simp
    then have "accounted (emit Shutdown (print_access_log ?c2))"
      by (simp add: accounted_print_access_log)
    moreover have "c' = emit Shutdown (print_access_log ?c2)"
      using assms(2) True by (auto simp: close_impl_def Let_def split: if_splits)
    ultimately show ?thesis
      by simp
  next
    case False
    note ok = False
    show ?thesis
    proof (cases "m_state ?c1 \<noteq> processing_request")
      case True
      let ?c2 = "?c1\<lparr>m_state := m_state ?c1 OR request_processed\<rparr>"
      have a2: "accounted ?c2"
        using a1 by simp
      have "c' = ?c2 \<or> c' = async_read ?c2
          \<or> (\<exists>b e. process_data w ?c2 b e = Inr c')"
        using assms(2) ok True
        by (auto simp: close_impl_def Let_def split: if_splits option.splits)
      then show ?thesis
        using a2 accounted_process(1) [OF a2] by auto
    next
      case False
      have "c' = emit Shutdown (print_access_log ?c1) \<or> process_next w ?c1 = Inr c'"
        using assms(2) ok False
        by (auto simp: close_impl_def Let_def split: if_splits)
      then show ?thesis
        using accounted_process(2) [OF a1] accounted_print_access_log [OF a1] by auto
    qed
  qed
qed

lemma accounted_invoke:
  "accounted c \<Longrightarrow> invoke w c cb err = Inr c' \<Longrightarrow> accounted c'"
  by (cases cb) (auto simp: invoke_def dest: accounted_close_impl)

lemma accounted_flush_outgoing:
  "accounted c \<Longrightarrow> flush_outgoing w c items err = Inr c' \<Longrightarrow> accounted c'"
proof (induction items arbitrary: c)
  case Nil
  then show ?case by simp
next
  case (Cons it items)
  then show ?case
    by (auto split: sum.splits dest: accounted_invoke)
qed

lemma accounted_write_finished_loop:
  assumes "accounted c" "write_finished_loop w c n = Inr c'"
  shows "accounted c'"
proof (rule loop_invariant [where P = accounted and w = w])
  show "write_finished_loop w c n = Inr c'" by fact
  show "accounted c" by fact
  show "accounted c \<Longrightarrow> accounted (c\<lparr>m_outgoing := q\<rparr>)" for c :: "('a, 'b) connection" and q
    by simp
  show "accounted c \<Longrightarrow> invoke w c cb 0 = Inr c' \<Longrightarrow> accounted c'" for c cb c'
    by (rule accounted_invoke)
  show "accounted c \<Longrightarrow> accounted (emit (ExtraWrittenBytes n) c)"
    for c :: "('a, 'b) connection" and n
    by simp
qed

lemma accounted_write_finished:
  assumes "accounted c" "write_finished w c err n = Inr c'"
  shows "accounted c'"
proof -
  let ?c0 = "c\<lparr>m_access_sent := m_access_sent c + of_nat n\<rparr>"
  have a0: "accounted ?c0" "accounted (?c0\<lparr>m_outgoing := []\<rparr>)"
    using assms(1) by simp_all
  show ?thesis
  proof (cases "err \<noteq> 0")
    case False
    then obtain c1 where l: "write_finished_loop w ?c0 n = Inr c1"
        and c': "c' = c1\<lparr>m_sending := False\<rparr> \<or> c' = send_nolock c1"
      using assms(2) by (auto simp: write_finished_def Let_def split: sum.splits if_splits)
    from accounted_write_finished_loop [OF a0(1) l] c' show ?thesis
      by (auto simp: send_nolock_def)
  next
    case True
    then obtain c1 where f: "flush_outgoing w (?c0\<lparr>m_outgoing := []\<rparr>) (m_outgoing ?c0) err
        = Inr c1"
      using assms(2) by (auto simp: write_finished_def Let_def split: sum.splits)
    note a1 = accounted_flush_outgoing [OF a0(2) f]
    let ?c2 = "c1\<lparr>m_access_status := 499\<rparr>"
    have a2: "accounted ?c2"
      using a1 by simp
    have "\<exists>c3. accounted c3 \<and> close_impl w c3 err = Inr c'"
    proof (cases "m_handler c1")
      case None
      with assms(2) True f have "close_impl w ?c2 err = Inr c'"
        by (auto simp: write_finished_def Let_def)
      with a2 show ?thesis
        by blast
    next
      case (Some h)
      with assms(2) True f have
        "(\<exists>c3. call_on_close w ?c2 h err ''connection::write_finished -> on_close''
             SAFE_SEND_NONE = Value c3 \<and> close_impl w c3 err = Inr c')
         \<or> (\<exists>c3. call_on_close w ?c2 h err ''connection::write_finished -> on_close''
             SAFE_SEND_NONE = Caught c3 \<and> close_impl w c3 err = Inr c')"
        by (auto simp: write_finished_def Let_def split: safe_call.splits)
      then show ?thesis
        using accounted_call_on_close(3,4) [OF a2] by blast
    qed
    then show ?thesis
      by (auto dest: accounted_close_impl)
  qed
qed

lemma accounted_handle_read:
  assumes "accounted c" "handle_read w c err n = Inr c'"
  shows "accounted c'"
proof (cases "err \<noteq> 0")
  case False
  with assms(2) have "process_data w (c\<lparr>m_at_read := False\<rparr>) 0 n = Inr c'"
    by (simp add: handle_read_def Let_def)
  moreover have "accounted (c\<lparr>m_at_read := False\<rparr>)"
    using assms(1) by simp
  ultimately show ?thesis
    using accounted_process(1) by blast
next
  case True
  let ?c1 = "print_access_log (c\<lparr>m_at_read := False, m_access_status := 499\<rparr>)"
  have a1: "accounted ?c1"
    using assms(1) by (simp add: accounted_print_access_log)
  show ?thesis
  proof (cases "m_handler ?c1")
    case None
    with assms(2) True a1 show ?thesis
      by (auto simp: handle_read_def Let_def)
  next
    case (Some h)
    with assms(2) True have
      "\<exists>c3. (call_on_close w ?c1 h err ''connection::handle_read -> on_close''
             SAFE_SEND_NONE = Value c3
           \<or> call_on_close w ?c1 h err ''connection::handle_read -> on_close''
             SAFE_SEND_NONE = Caught c3)
         \<and> c' = c3\<lparr>active_connections_counter := active_connections_counter c3 - 1,
                    m_handler := None\<rparr>"
      by (auto simp: handle_read_def Let_def split: safe_call.splits)
    then show ?thesis
      using accounted_call_on_close(3,4) [OF a1] by auto
  qed
qed

lemma accounted_want_more_impl:
  assumes "accounted c" "want_more_impl w c = Inr c'"
  shows "accounted c'"
proof -
  have "c' = c \<or> c' = async_read c \<or> (\<exists>b e. process_data w c b e = Inr c')"
    using assms(2) by (auto simp: want_more_impl_def split: if_splits option.splits)
  then show ?thesis
    using assms(1) accounted_process(1) [OF assms(1)] by auto
qed

lemma accounted_destructor:
  assumes "accounted c" "destructor w c = Inr c'"
  shows "accounted c'"
proof -
  let ?c1 = "if m_server c then c\<lparr>connections_counter := connections_counter c - 1\<rparr> else c"
  have a1: "accounted ?c1" "accounted (print_access_log (?c1\<lparr>m_access_status := 597\<rparr>))"
    using assms(1) by (simp_all add: accounted_print_access_log)
  show ?thesis
  proof (cases "m_handler ?c1")
    case None
    with assms(2) a1 show ?thesis
      by (auto simp: destructor_def Let_def)
  next
    case (Some h)
    with assms(2) have
      "call_on_close w (print_access_log (?c1\<lparr>m_access_status := 597\<rparr>)) h 0
           ''connection::~connection -> on_close'' SAFE_SEND_NONE = Value c'
       \<or> call_on_close w (print_access_log (?c1\<lparr>m_access_status := 597\<rparr>)) h 0
           ''connection::~connection -> on_close'' SAFE_SEND_NONE = Caught c'"
      by (auto simp: destructor_def Let_def split: safe_call.splits)
    then show ?thesis
      using accounted_call_on_close(3,4) [OF a1(2)] by blast
  qed
qed

lemma accounted_occur:
  "accounted c \<Longrightarrow> occur w c ev = Inr c' \<Longrightarrow> accounted c'"
proof (cases ev)
  case (ReadCompleted err data)
  assume "accounted c" "occur w c ev = Inr c'"
  with ReadCompleted show ?thesis
    using accounted_handle_read [of "socket_received data c" w err "length data" c']
    by (simp add: socket_received_def)
qed (auto dest: accounted_write_finished accounted_close_impl accounted_want_more_impl
       accounted_destructor)

lemma accounted_run:
  "accounted c \<Longrightarrow> run w c evs = Inr c' \<Longrightarrow> accounted c'"
proof (induction evs arbitrary: c)
  case Nil
  then show ?case by simp
next
  case (Cons ev evs)
  then show ?case
    by (auto split: sum.splits dest: accounted_occur)
qed

lemma accounted_start: "accounted (start local remote (new_connection n p s))"
  by (simp add: start_def) (simp add: accounted_def new_connection_def)

text \<open>
  C7, as the claim states it, fails: a request without a route carries five body bytes;
  the parser consumes one header byte, no handler exists to acknowledge anything, and
  the access log reports six bytes received.
\<close>

theorem received_counts_undelivered_body_counterexample:
  "\<exists>c1 c2. handle_read demo_world (socket_received ''Mabcde'' demo_start) 0 6 = Inr c1
      \<and> fst (snd (parse demo_world () empty_request ''Mabcde'')) = 1
      \<and> write_finished demo_world c1 0 14 = Inr c2
      \<and> trace c2 =
          [AsyncReadSome,
           AsyncWriteSome [''HTTP/1.1 reply'', []],
           AccessLog \<lparr>log_method = ''POST'', log_url = ''/missing'', log_local = ''local'',
             log_remote = ''remote'', log_status = 404, log_received = 6, log_sent = 14\<rparr>,
           AsyncReadSome]"
  by (simp add: demo_defs step_defs run_defs)

text \<open>
  C7, amended. Whatever happens to a connection after it has been started, in any order
  and with any parser, factory and handler: every access log line in the trace reports
  as bytes received the sum, over the receipts that its request had when the line was
  printed, of the header bytes the parser consumed, the body bytes that \<^verbatim>\<open>on_data\<close>
  returned as consumed, and the body bytes that passed while no handler was attached
  (a request without a route, or one whose handler has closed and whose body is being
  drained). The counter \<^verbatim>\<open>m_access_received\<close> is that sum for the current request at
  every moment between two events.
\<close>

theorem received_counts_parsed_and_processed_bytes:
  assumes "run w (start local remote (new_connection buffer_size parser safe)) events = Inr c"
  shows "map log_received (access_lines (trace c)) =
           map (\<lambda>rs. header_bytes rs + acknowledged_bytes rs + unattended_bytes rs) (reported c)
         \<and> m_access_received c =
             header_bytes (receipts c) + acknowledged_bytes (receipts c)
               + unattended_bytes (receipts c)"
proof -
  from accounted_run [OF accounted_start assms] show ?thesis
    by (simp add: accounted_def receipts_total_def [abs_def])
qed

text \<open>
  The theorem at work: a request announces ten body bytes; one header byte and four
  body bytes arrive, the handler acknowledges the four, replies and closes; the other
  six are drained. The line reports 11 = 1 + 4 + 6.
\<close>

theorem received_counts_parsed_and_processed_bytes_witness:
  "\<exists>c. run demo_world (start ''local'' ''remote'' (new_connection 16 () False))
          [ReadCompleted 0 ''P0123'',
           SendHeadersCalled \<lparr>rep_code = 200, rep_keep_alive = False\<rparr> ''ok'' None,
           CloseCalled 0,
           ReadCompleted 0 ''456789''] = Inr c
      \<and> reported c = [[Parsed 1, Acknowledged 4, Unattended 6]]
      \<and> map log_received (access_lines (trace c)) = [1 + 4 + 6]
      \<and> m_access_received c = 0 \<and> receipts c = []"
proof -
  let ?evs = "[ReadCompleted 0 ''P0123'',
           SendHeadersCalled \<lparr>rep_code = 200, rep_keep_alive = False\<rparr> ''ok'' None,
           CloseCalled 0,
           ReadCompleted 0 ''456789'']"
  have "\<exists>c. run demo_world (start ''local'' ''remote'' (new_connection 16 () False)) ?evs = Inr c
      \<and> reported c = [[Parsed 1, Acknowledged 4, Unattended 6]] \<and> receipts c = []"
    by (simp add: demo_defs step_defs run_defs user_callback_def)
  then obtain c where
    c: "run demo_world (start ''local'' ''remote'' (new_connection 16 () False)) ?evs = Inr c"
      "reported c = [[Parsed 1, Acknowledged 4, Unattended 6]]" "receipts c = []"
    by blast
  from received_counts_parsed_and_processed_bytes [OF c(1)] c(2,3)
  have "map log_received (access_lines (trace c)) = [1 + 4 + 6]" "m_access_received c = 0"
    by simp_all
  with c show ?thesis
    by (intro exI [of _ c]) simp
qed

lemma buffers_array_inner_eq:
  "buffers_array_inner js m_data = m_data @ take (buffers_count - length m_data) js"
proof (induction js arbitrary: m_data)
  case Nil
  show ?case by simp
next
  case (Cons j js)
  show ?case
  proof (cases "length m_data < buffers_count")
    case True
    then have "buffers_count - length m_data = Suc (buffers_count - Suc (length m_data))"
      by simp
    with True Cons show ?thesis by simp
  next
    case False
    then show ?thesis by simp
  qed
qed

lemma buffers_array_outer_eq:
  "buffers_array_outer queue m_data =
     m_data @ take (buffers_count - length m_data) (concat (map buffer queue))"
proof (induction queue arbitrary: m_data)
  case Nil
  show ?case by simp
next
  case (Cons it queue)
  show ?case
  proof (cases "length m_data < buffers_count")
    case True
    then show ?thesis
      by (simp add: Cons buffers_array_inner_eq take_add min_def)
  next
    case False
    then show ?thesis by simp
  qed
qed

text \<open>
  C9. Every scatter-gather write handed to the socket holds at most 32 byte ranges:
  the first 32 ranges of the queue read front to back, each range whole, whatever its
  length. The bound is on the number of ranges, not on their bytes.
\<close>

theorem send_nolock_gathers_front_ranges:
  "send_nolock c = emit (AsyncWriteSome (take 32 (concat (map buffer (m_outgoing c))))) c
   \<and> length (buffers_array (m_outgoing c)) \<le> 32
   \<and> buffers_array (m_outgoing c) = take 32 (concat (map buffer (m_outgoing c)))
   \<and> m_outgoing (send_nolock c) = m_outgoing c"
  by (simp add: send_nolock_def buffers_array_def buffers_array_outer_eq buffers_count_def
      emit_def)

lemma consume_ranges_all:
  "sum_list (map length bs) \<le> n \<Longrightarrow> consume_ranges bs n = ([], n - sum_list (map length bs))"
  by (induction bs arbitrary: n) auto

lemma consume_ranges_part:
  "n < sum_list (map length bs) \<Longrightarrow>
   \<exists>r rs. consume_ranges bs n = (r # rs, 0) \<and> concat (r # rs) = drop n (concat bs)"
proof (induction bs arbitrary: n)
  case Nil
  then show ?case by simp
next
  case (Cons b bs)
  show ?case
  proof (cases "length b \<le> n")
    case True
    with Cons.prems have "n - length b < sum_list (map length bs)"
      by simp
    from Cons.IH [OF this] True show ?thesis
      by auto
  next
    case False
    then show ?thesis by simp
  qed
qed

text \<open>
  C10. The loop that drains the queue after a successful write ends. With nothing left
  of \<^verbatim>\<open>bytes_written\<close> it stops. With an empty queue it logs the extra bytes and
  stops. When the front item fits into \<^verbatim>\<open>bytes_written\<close> it is removed, its callback
  is called with success and the loop goes on with fewer bytes, or with as many bytes
  and one empty item less in the queue. When the front item does not fit, its ranges
  are advanced in place to the bytes not yet written and the loop stops, since
  \<^verbatim>\<open>bytes_written\<close> is then zero. The queue mutex is not part of the model.
\<close>

theorem write_finished_loop_iteration:
  "write_finished_loop w c 0 = Inr c
   \<and> (0 < n \<and> m_outgoing c = []
      \<longrightarrow> write_finished_loop w c n = Inr (emit (ExtraWrittenBytes n) c))
   \<and> (0 < n \<and> m_outgoing c = front # rest \<and> item_size front \<le> n
      \<longrightarrow> write_finished_loop w c n =
            (case invoke w (c\<lparr>m_outgoing := rest\<rparr>) (handler front) 0 of
               Inl ex \<Rightarrow> Inl ex
             | Inr c' \<Rightarrow> write_finished_loop w c' (n - item_size front))
          \<and> (\<forall>c'. invoke w (c\<lparr>m_outgoing := rest\<rparr>) (handler front) 0 = Inr c'
                \<longrightarrow> n - item_size front < n
                    \<or> n - item_size front = n \<and> queue_rank c' < queue_rank c))
   \<and> (0 < n \<and> m_outgoing c = front # rest \<and> n < item_size front
      \<longrightarrow> write_finished_loop w c n =
            Inr (c\<lparr>m_outgoing := front\<lparr>buffer := fst (consume_ranges (buffer front) n)\<rparr> # rest\<rparr>)
          \<and> fst (consume_ranges (buffer front) n) \<noteq> []
          \<and> concat (fst (consume_ranges (buffer front) n)) = drop n (concat (buffer front)))"
proof (intro conjI impI allI)
  show "write_finished_loop w c 0 = Inr c"
    by (simp add: write_finished_loop.simps)
next
  assume "0 < n \<and> m_outgoing c = []"
  then show "write_finished_loop w c n = Inr (emit (ExtraWrittenBytes n) c)"
    by (simp add: write_finished_loop.simps)
next
  assume a: "0 < n \<and> m_outgoing c = front # rest \<and> item_size front \<le> n"
  then have "consume_ranges (buffer front) n = ([], n - item_size front)"
    by (simp add: item_size_def consume_ranges_all)
  with a show "write_finished_loop w c n =
            (case invoke w (c\<lparr>m_outgoing := rest\<rparr>) (handler front) 0 of
               Inl ex \<Rightarrow> Inl ex
             | Inr c' \<Rightarrow> write_finished_loop w c' (n - item_size front))"
    by (simp add: write_finished_loop.simps [of w c n])
next
  fix c'
  assume a: "0 < n \<and> m_outgoing c = front # rest \<and> item_size front \<le> n"
    and i: "invoke w (c\<lparr>m_outgoing := rest\<rparr>) (handler front) 0 = Inr c'"
  have "queue_rank c' = empty_items rest"
    using queue_rank_invoke [OF i] by (simp add: queue_rank_def)
  moreover have "queue_rank c = empty_items rest + (if item_size front = 0 then 1 else 0)"
    using a by (simp add: queue_rank_def empty_items_def)
  ultimately show "n - item_size front < n
      \<or> n - item_size front = n \<and> queue_rank c' < queue_rank c"
    using a by (cases "item_size front = 0") auto
next
  assume a: "0 < n \<and> m_outgoing c = front # rest \<and> n < item_size front"
  then obtain r rs where cr: "consume_ranges (buffer front) n = (r # rs, 0)"
      "concat (r # rs) = drop n (concat (buffer front))"
    using consume_ranges_part [of n "buffer front"] by (auto simp: item_size_def)
  from a cr(1) show "write_finished_loop w c n =
            Inr (c\<lparr>m_outgoing := front\<lparr>buffer := fst (consume_ranges (buffer front) n)\<rparr> # rest\<rparr>)"
    by (simp add: write_finished_loop.simps [of w c n] write_finished_loop.simps [of w _ 0])
  from cr show "fst (consume_ranges (buffer front) n) \<noteq> []"
    by simp
  from cr show "concat (fst (consume_ranges (buffer front) n)) = drop n (concat (buffer front))"
    by simp
qed


theorem write_finished_loop_iteration_witness:
  "write_finished_loop demo_world demo_queue_state 7 =
     Inr (demo_queue_state\<lparr>m_outgoing := [demo_item [''hij''] NoCallback],
                            trace := [Completion 1 0]\<rparr>)
   \<and> write_finished_loop demo_world demo_queue_state 20 =
     Inr (demo_queue_state\<lparr>m_outgoing := [],
                            trace := [Completion 1 0, ExtraWrittenBytes 10]\<rparr>)"
proof -
  let ?w = demo_world
  let ?first = "demo_item [''abc'', ''de''] (UserCallback 1)"
  let ?second = "demo_item [''fghij''] NoCallback"
  let ?q1 = "emit (Completion 1 0) (demo_queue_state\<lparr>m_outgoing := [?second]\<rparr>)"
  let ?q2 = "?q1\<lparr>m_outgoing := []\<rparr>"
  note t = write_finished_loop_iteration
  have sizes: "item_size ?first = 5" "item_size ?second = 5"
    by (simp_all add: item_size_def demo_item_def)
  have q: "m_outgoing demo_queue_state = [?first, ?second]" "m_outgoing ?q1 = [?second]"
    "m_outgoing ?q2 = []"
    by (simp_all add: demo_queue_state_def emit_def)
  have pop1: "write_finished_loop ?w demo_queue_state n = write_finished_loop ?w ?q1 (n - 5)"
    if "5 \<le> n" for n
    using t [where c = demo_queue_state and w = ?w and n = n and front = ?first
        and rest = "[?second]"] that q(1) sizes(1)
    by (simp add: invoke_def demo_item_def)
  have pop2: "write_finished_loop ?w ?q1 n = write_finished_loop ?w ?q2 (n - 5)"
    if "5 \<le> n" for n
    using t [where c = ?q1 and w = ?w and n = n and front = ?second and rest = "[]"]
      that q(2) sizes(2)
    by (simp add: invoke_def demo_item_def)
  have part: "write_finished_loop ?w ?q1 2 = Inr (?q1\<lparr>m_outgoing := [demo_item [''hij''] NoCallback]\<rparr>)"
    using t [where c = ?q1 and w = ?w and n = 2 and front = ?second and rest = "[]"]
      q(2) sizes(2)
    by (simp add: demo_item_def)
  have extra: "write_finished_loop ?w ?q2 10 = Inr (emit (ExtraWrittenBytes 10) ?q2)"
    using t [where c = ?q2 and w = ?w and n = 10] q(3)
    by simp
  show ?thesis
    using pop1 [of 7] pop1 [of 20] pop2 [of 15] part extra
    by (simp add: emit_def demo_queue_state_def new_connection_def)
qed

end
